theory Spec2Isabelle
  imports Main "HOL-Library.Sublist"
begin

section \<open>The preview splitter script (src/split\_preview.py)\<close>

text \<open>
  The script reads one Rust source file, cuts it at the first occurrences of a few
  literal keys, composes six new files from the pieces and fixed headers, writes them
  and removes the original. A Python \<open>str\<close> is modelled as a \<open>string\<close>, one \<open>char\<close>
  per code point, so the model covers documents whose code points are below 256; the
  line boundaries and white space of Python are the ones of that range.
\<close>

subsection \<open>Python string operations\<close>

datatype error = ValueError | StopIteration | IndexError
  | FileNotFoundError | FileExistsError | IsADirectoryError

text \<open>Sequencing of steps that may raise: the first exception ends the sequence.\<close>

definition bind :: "error + 'a \<Rightarrow> ('a \<Rightarrow> error + 'b) \<Rightarrow> error + 'b" where
  "bind r f = (case r of Inl e \<Rightarrow> Inl e | Inr x \<Rightarrow> f x)"

text \<open>\<open>s.index(sub)\<close>: the lowest offset where \<open>sub\<close> starts; ValueError is \<open>None\<close> here.\<close>

fun find_sub :: "string \<Rightarrow> string \<Rightarrow> nat option" where
  "find_sub sub [] = (if sub = [] then Some 0 else None)"
| "find_sub sub (c # cs) =
     (if prefix sub (c # cs) then Some 0 else map_option Suc (find_sub sub cs))"

definition index :: "string \<Rightarrow> string \<Rightarrow> error + nat" where
  "index s sub = (case find_sub sub s of None \<Rightarrow> Inl ValueError | Some i \<Rightarrow> Inr i)"

text \<open>\<open>sub in s\<close>.\<close>

definition contains :: "string \<Rightarrow> string \<Rightarrow> bool" where
  "contains sub s = (find_sub sub s \<noteq> None)"

text \<open>\<open>s[a:b]\<close> for offsets that are not negative: empty when \<open>b \<le> a\<close>, cut at the end.\<close>

definition slice :: "'a list \<Rightarrow> nat \<Rightarrow> nat \<Rightarrow> 'a list" where
  "slice s a b = take (b - a) (drop a s)"

text \<open>The line boundaries of \<open>str.splitlines\<close>: LF, VT, FF, CR, FS, GS, RS and NEL.\<close>

definition is_linebreak :: "char \<Rightarrow> bool" where
  "is_linebreak c =
     (c \<in> {CHR 0x0A, CHR 0x0B, CHR 0x0C, CHR 0x0D, CHR 0x1C, CHR 0x1D, CHR 0x1E, CHR 0x85})"

text \<open>\<open>str.isspace\<close> on one character: TAB, the line boundaries, US, space and NBSP.\<close>

definition is_space :: "char \<Rightarrow> bool" where
  "is_space c =
     (c \<in> {CHR 0x09, CHR 0x0A, CHR 0x0B, CHR 0x0C, CHR 0x0D, CHR 0x1C, CHR 0x1D, CHR 0x1E,
            CHR 0x1F, CHR 0x20, CHR 0x85, CHR 0xA0})"

text \<open>\<open>s.splitlines()\<close>: the lines without their terminators; CR LF is one terminator,
  and a terminator at the very end opens no further line.\<close>

fun splitlines :: "string \<Rightarrow> string list" where
  "splitlines [] = []"
| "splitlines [c] = (if is_linebreak c then [[]] else [[c]])"
| "splitlines (c # d # cs) =
     (if c = CHR 0x0D \<and> d = CHR 0x0A then [] # splitlines cs
      else if is_linebreak c then [] # splitlines (d # cs)
      else (case splitlines (d # cs) of
              [] \<Rightarrow> [[c]]
            | l # ls \<Rightarrow> (c # l) # ls))"

text \<open>\<open>s.strip()\<close>.\<close>

definition strip :: "string \<Rightarrow> string" where
  "strip s = rev (dropWhile is_space (rev (dropWhile is_space s)))"

text \<open>\<open>sep.join(xs)\<close>.\<close>

fun join :: "string \<Rightarrow> string list \<Rightarrow> string" where
  "join sep [] = []"
| "join sep [x] = x"
| "join sep (x # y # ys) = x @ sep @ join sep (y # ys)"

subsection \<open>Boundary resolution (lines 7 to 22)\<close>

record markers =
  frame_cache_start :: nat
  frame_cache_impl_end :: nat
  renderer_start :: nat
  plate_start :: nat
  layers_start :: nat
  utils_start :: nat

definition key_frame_cache :: string where
  "key_frame_cache = ''struct FrameCache''"

definition key_renderer :: string where
  "key_renderer = ''/// Generates composited preview frames''"

definition key_plate :: string where
  "key_plate = ''impl PreviewRenderer {\<newline>    fn plate_images''"

definition key_layers :: string where
  "key_layers = ''struct PendingDecode''"

definition key_utils :: string where
  "key_utils = ''fn clamp_time''"

text \<open>The six \<open>text.index\<close> calls in the order of the script; the first that fails ends
  the resolution. Every call searches the whole text.\<close>

definition locate :: "string \<Rightarrow> error + markers" where
  "locate text =
     bind (index text key_frame_cache) (\<lambda>a.
     bind (index text key_renderer) (\<lambda>b.
     bind (index text key_renderer) (\<lambda>c.
     bind (index text key_plate) (\<lambda>d.
     bind (index text key_layers) (\<lambda>l.
     bind (index text key_utils) (\<lambda>u.
     Inr \<lparr>frame_cache_start = a, frame_cache_impl_end = b, renderer_start = c,
          plate_start = d, layers_start = l, utils_start = u\<rparr>))))))"

definition cache_block :: "string \<Rightarrow> markers \<Rightarrow> string" where
  "cache_block text m = slice text (frame_cache_start m) (frame_cache_impl_end m)"

definition renderer_block :: "string \<Rightarrow> markers \<Rightarrow> string" where
  "renderer_block text m = slice text (renderer_start m) (plate_start m)"

definition layers_block :: "string \<Rightarrow> markers \<Rightarrow> string" where
  "layers_block text m = slice text (layers_start m) (utils_start m)"

definition utils_block :: "string \<Rightarrow> markers \<Rightarrow> string" where
  "utils_block text m = drop (utils_start m) text"

definition types_block :: "string \<Rightarrow> markers \<Rightarrow> string" where
  "types_block text m = take (frame_cache_start m) text"

subsection \<open>Constants and types of the leading block (lines 24 to 41)\<close>

text \<open>\<open>next(i for i, line in enumerate(lines) if line.strip().startswith('#[derive')
  and 'PreviewStats' in lines[i+1])\<close>, counting from \<open>i\<close>. The \<open>and\<close> reads
  \<open>lines[i+1]\<close> only after the first test has passed, and on the last line that read
  raises IndexError; a generator that runs out raises StopIteration.\<close>

fun find_preview_stats :: "string list \<Rightarrow> nat \<Rightarrow> error + nat" where
  "find_preview_stats [] i = Inl StopIteration"
| "find_preview_stats [l] i =
     (if prefix ''#[derive'' (strip l) then Inl IndexError else Inl StopIteration)"
| "find_preview_stats (l # l' # ls) i =
     (if prefix ''#[derive'' (strip l) \<and> contains ''PreviewStats'' l' then Inr i
      else find_preview_stats (l' # ls) (Suc i))"

text \<open>\<open>next(i for i, line in enumerate(lines)
  if line.startswith('const DEFAULT_MAX_PREVIEW_WIDTH'))\<close>, counting from \<open>i\<close>.\<close>

fun find_const :: "string list \<Rightarrow> nat \<Rightarrow> error + nat" where
  "find_const [] i = Inl StopIteration"
| "find_const (l # ls) i =
     (if prefix ''const DEFAULT_MAX_PREVIEW_WIDTH'' l then Inr i
      else find_const ls (Suc i))"

record parts =
  marks :: markers
  lines :: "string list"
  preview_stats_idx :: nat
  const_start :: nat
  uses :: "string list"
  rest :: "string list"
  const_block :: string
  type_block :: string

text \<open>Lines 7 to 41: everything the script computes before it touches the file system.\<close>

definition resolve :: "string \<Rightarrow> error + parts" where
  "resolve text =
     bind (locate text) (\<lambda>m.
     let ls = splitlines (types_block text m) in
     bind (find_preview_stats ls 0) (\<lambda>p.
     bind (find_const ls 0) (\<lambda>c.
     Inr \<lparr>marks = m, lines = ls, preview_stats_idx = p, const_start = c,
          uses = filter (prefix ''use '') (take c ls),
          rest = [],
          const_block = strip (join ''\<newline>'' (slice ls c p)),
          type_block = strip (join ''\<newline>'' (drop p ls))\<rparr>)))"

subsection \<open>Composition of the six units (lines 45 to 103)\<close>

definition mod_rs :: string where
  "mod_rs =
     ''//! Preview rendering system\<newline>'' @
     ''//!\<newline>'' @
     ''//! Generates composited preview frames for the current timeline time.\<newline>'' @
     ''\<newline>'' @
     ''mod renderer;\<newline>'' @
     ''mod cache;\<newline>'' @
     ''mod layers;\<newline>'' @
     ''mod types;\<newline>'' @
     ''mod utils;\<newline>'' @
     ''\<newline>'' @
     ''pub use renderer::PreviewRenderer;\<newline>'' @
     ''pub use cache::{FrameCache, CachedFrame};\<newline>'' @
     ''pub use layers::{PreviewLayer, PreviewLayerStack, PreviewLayerGpu};\<newline>'' @
     ''pub use types::*;\<newline>'' @
     ''pub use utils::*;\<newline>''"

definition cache_header :: string where
  "cache_header =
     ''use std::collections::{HashMap, HashSet, VecDeque};\<newline>'' @
     ''use std::path::{Path, PathBuf};\<newline>\<newline>'' @
     ''use image::RgbaImage;\<newline>\<newline>'' @
     ''use super::{FrameKey, CachedFrame};\<newline>\<newline>''"

definition renderer_header :: string where
  "renderer_header =
     ''use std::path::{Path, PathBuf};\<newline>'' @
     ''use std::sync::{Arc, Mutex};\<newline>'' @
     ''use std::time::Instant;\<newline>\<newline>'' @
     ''use image::{Rgba, RgbaImage};\<newline>\<newline>'' @
     ''use crate::core::preview_store;\<newline>'' @
     ''use crate::core::video_decode::{DecodeMode, VideoDecodeWorker};\<newline>'' @
     ''use crate::state::{Asset, ClipTransform, Project, TrackType};\<newline>\<newline>'' @
     ''use super::{\<newline>'' @
     ''    cache::FrameCache,\<newline>'' @
     ''    layers::{PreviewLayer, PreviewLayerGpu, PreviewLayerPlacement, PreviewLayerStack},\<newline>'' @
     ''    types::{PreviewDecodeMode, PreviewFrameInfo, PreviewStats, RenderOutput},\<newline>'' @
     ''    utils::{\<newline>'' @
     ''        clamp_time, elapsed_ms, frame_index_to_time, image_size_bytes, scale_image_to_fit,\<newline>'' @
     ''        time_to_frame_index, track_lane_id,\<newline>'' @
     ''    },\<newline>'' @
     ''    DecodedFrame, FrameKey, PendingDecode, PlateCache,\<newline>'' @
     ''};\<newline>\<newline>''"

definition layers_header :: string where
  "layers_header =
     ''use std::borrow::Cow;\<newline>'' @
     ''use std::path::{Path, PathBuf};\<newline>'' @
     ''use std::sync::Arc;\<newline>\<newline>'' @
     ''use image::{Rgba, RgbaImage};\<newline>'' @
     ''use image::imageops::{overlay, resize, FilterType};\<newline>'' @
     ''use imageproc::geometric_transformations::{rotate_about_center, Interpolation};\<newline>\<newline>'' @
     ''use crate::state::{Asset, AssetKind, ClipTransform};\<newline>\<newline>'' @
     ''use super::types::{PreviewLayerPlacement};\<newline>\<newline>''"

definition utils_header :: string where
  "utils_header =
     ''use std::path::Path;\<newline>'' @
     ''use std::time::Instant;\<newline>\<newline>'' @
     ''use image::{Rgba, RgbaImage};\<newline>'' @
     ''use image::imageops::{resize, FilterType};\<newline>\<newline>'' @
     ''use crate::state::{Asset, AssetKind};\<newline>\<newline>''"

text \<open>\<open>const_block = const_block + '\n' if const_block else ''\<close>, then
  \<open>types_rs = const_block + type_block + '\n'\<close>.\<close>

definition types_rs :: "parts \<Rightarrow> string" where
  "types_rs p =
     (let cb = (if const_block p \<noteq> [] then const_block p @ ''\<newline>'' else [])
      in cb @ type_block p @ ''\<newline>'')"

definition cache_rs :: "string \<Rightarrow> parts \<Rightarrow> string" where
  "cache_rs text p = cache_header @ strip (cache_block text (marks p)) @ ''\<newline>''"

definition renderer_rs :: "string \<Rightarrow> parts \<Rightarrow> string" where
  "renderer_rs text p = renderer_header @ strip (renderer_block text (marks p)) @ ''\<newline>''"

definition layers_rs :: "string \<Rightarrow> parts \<Rightarrow> string" where
  "layers_rs text p = layers_header @ strip (layers_block text (marks p)) @ ''\<newline>''"

definition utils_rs :: "string \<Rightarrow> parts \<Rightarrow> string" where
  "utils_rs text p = utils_header @ strip (utils_block text (marks p)) @ ''\<newline>''"

subsection \<open>The file system and the whole script\<close>

text \<open>
  The state the script acts on: the working directory of the process, the regular files
  with their contents, the directories, and the changes made so far, oldest first.
  A relative path is resolved against the working directory. The content of a file is
  the text that \<open>read_text\<close> returns and \<open>write_text\<close> receives; decoding and the
  translation of line ends between text and bytes are outside the model, and so are
  failures of the storage itself.
\<close>

datatype event = MkDir string | WriteText string string | Unlink string

record fs =
  cwd :: string
  files :: "string \<rightharpoonup> string"
  dirs :: "string set"
  trace :: "event list"

type_synonym 'a prog = "fs \<Rightarrow> (error + 'a) \<times> fs"

definition seq :: "'a prog \<Rightarrow> ('a \<Rightarrow> 'b prog) \<Rightarrow> 'b prog" where
  "seq m f s = (case m s of (Inl e, s') \<Rightarrow> (Inl e, s') | (Inr x, s') \<Rightarrow> f x s')"

text \<open>A computation that touches no file: its exception or its value.\<close>

definition pure :: "error + 'a \<Rightarrow> 'a prog" where
  "pure r s = (r, s)"

definition abspath :: "fs \<Rightarrow> string \<Rightarrow> string" where
  "abspath s p = cwd s @ ''/'' @ p"

text \<open>\<open>os.chdir(d)\<close> with an absolute \<open>d\<close>.\<close>

definition chdir :: "string \<Rightarrow> unit prog" where
  "chdir d s =
     (if d \<in> dirs s then (Inr (), s\<lparr>cwd := d\<rparr>) else (Inl FileNotFoundError, s))"

text \<open>\<open>Path(p).read_text(encoding='utf-8')\<close>.\<close>

definition read_text :: "string \<Rightarrow> string prog" where
  "read_text p s =
     (if abspath s p \<in> dirs s then (Inl IsADirectoryError, s)
      else case files s (abspath s p) of
             None \<Rightarrow> (Inl FileNotFoundError, s)
           | Some t \<Rightarrow> (Inr t, s))"

text \<open>\<open>Path(p).mkdir(exist_ok=True)\<close>: nothing to do when the directory is there, an
  exception when a regular file has the name. The parent directory holds the file that
  the script has read just before.\<close>

definition mkdir :: "string \<Rightarrow> unit prog" where
  "mkdir p s =
     (if abspath s p \<in> dirs s then (Inr (), s)
      else if files s (abspath s p) \<noteq> None then (Inl FileExistsError, s)
      else (Inr (), s\<lparr>dirs := insert (abspath s p) (dirs s),
                        trace := trace s @ [MkDir (abspath s p)]\<rparr>))"

text \<open>\<open>Path(p).write_text(c, encoding='utf-8')\<close>: creates the file or replaces its
  content.\<close>

definition write_text :: "string \<Rightarrow> string \<Rightarrow> unit prog" where
  "write_text p c s =
     (if abspath s p \<in> dirs s then (Inl IsADirectoryError, s)
      else (Inr (), s\<lparr>files := (files s)(abspath s p \<mapsto> c),
                        trace := trace s @ [WriteText (abspath s p) c]\<rparr>))"

text \<open>\<open>Path(p).unlink(missing_ok=...)\<close>.\<close>

definition unlink :: "bool \<Rightarrow> string \<Rightarrow> unit prog" where
  "unlink missing_ok p s =
     (case files s (abspath s p) of
        None \<Rightarrow> (if missing_ok then (Inr (), s) else (Inl FileNotFoundError, s))
      | Some t \<Rightarrow> (Inr (), s\<lparr>files := (files s)(abspath s p := None),
                             trace := trace s @ [Unlink (abspath s p)]\<rparr>))"

definition repo_dir :: string where
  "repo_dir = ''C:/repos/nla-ai-videocreator-rust''"

definition preview_rs :: string where
  "preview_rs = ''src/core/preview.rs''"

text \<open>Lines 105 to 112: the six writes, then the removal of the original.\<close>

definition commit :: "string \<Rightarrow> parts \<Rightarrow> unit prog" where
  "commit text p =
     seq (write_text ''src/core/preview/mod.rs'' mod_rs) (\<lambda>_.
     seq (write_text ''src/core/preview/types.rs'' (types_rs p)) (\<lambda>_.
     seq (write_text ''src/core/preview/cache.rs'' (cache_rs text p)) (\<lambda>_.
     seq (write_text ''src/core/preview/renderer.rs'' (renderer_rs text p)) (\<lambda>_.
     seq (write_text ''src/core/preview/layers.rs'' (layers_rs text p)) (\<lambda>_.
     seq (write_text ''src/core/preview/utils.rs'' (utils_rs text p)) (\<lambda>_.
     unlink True preview_rs))))))"

text \<open>The script from its first line to its last.\<close>

definition script :: "unit prog" where
  "script =
     seq (chdir repo_dir) (\<lambda>_.
     seq (read_text preview_rs) (\<lambda>text.
     seq (pure (resolve text)) (\<lambda>p.
     seq (mkdir ''src/core/preview'') (\<lambda>_.
     commit text p))))"

section \<open>Notions used by the properties\<close>

text \<open>The keys of the six \<open>text.index\<close> calls, in the order of the calls.\<close>

definition marker_keys :: "string list" where
  "marker_keys = [key_frame_cache, key_renderer, key_renderer, key_plate, key_layers, key_utils]"

text \<open>Offset \<open>i\<close> is the first place in \<open>text\<close> where \<open>key\<close> starts.\<close>

definition first_at :: "string \<Rightarrow> string \<Rightarrow> nat \<Rightarrow> bool" where
  "first_at key text i =
     (prefix key (drop i text) \<and> i + length key \<le> length text \<and>
      (\<forall>j<i. \<not> prefix key (drop j text)))"

text \<open>The five blocks in the order of their ranges.\<close>

definition blocks_in_order :: "string \<Rightarrow> markers \<Rightarrow> string list" where
  "blocks_in_order text m =
     [types_block text m, cache_block text m, renderer_block text m,
      layers_block text m, utils_block text m]"

subsection \<open>Sample documents\<close>

text \<open>All keys present, in the order of the calls.\<close>

definition doc_ordered_body :: string where
  "doc_ordered_body =
     ''const DEFAULT_MAX_PREVIEW_WIDTH: u32 = 1;\<newline>\<newline>'' @
     ''#[derive(Debug)]\<newline>'' @
     ''pub struct PreviewStats;\<newline>\<newline>'' @
     ''struct FrameCache;\<newline>\<newline>'' @
     ''/// Generates composited preview frames\<newline>'' @
     ''struct R;\<newline>\<newline>'' @
     ''impl PreviewRenderer {\<newline>'' @
     ''    fn plate_images() {}\<newline>'' @
     ''}\<newline>\<newline>'' @
     ''struct PendingDecode;\<newline>\<newline>'' @
     ''fn clamp_time() {}\<newline>''"

definition doc_ordered :: string where
  "doc_ordered = ''use a;\<newline>\<newline>'' @ doc_ordered_body"

text \<open>The key of the utilities before the key of the layers.\<close>

definition doc_utils_first :: string where
  "doc_utils_first =
     ''const DEFAULT_MAX_PREVIEW_WIDTH: u32 = 1;\<newline>'' @
     ''#[derive(Debug)]\<newline>'' @
     ''pub struct PreviewStats;\<newline>'' @
     ''struct FrameCache;\<newline>'' @
     ''/// Generates composited preview frames\<newline>'' @
     ''impl PreviewRenderer {\<newline>'' @
     ''    fn plate_images() {}\<newline>'' @
     ''}\<newline>'' @
     ''fn clamp_time() {}\<newline>'' @
     ''struct PendingDecode;\<newline>''"

text \<open>The key of the layers before the keys of the renderer.\<close>

definition doc_layers_first :: string where
  "doc_layers_first =
     ''const DEFAULT_MAX_PREVIEW_WIDTH: u32 = 1;\<newline>'' @
     ''#[derive(Debug)]\<newline>'' @
     ''pub struct PreviewStats;\<newline>'' @
     ''struct FrameCache;\<newline>'' @
     ''struct PendingDecode;\<newline>'' @
     ''/// Generates composited preview frames\<newline>'' @
     ''impl PreviewRenderer {\<newline>'' @
     ''    fn plate_images() {}\<newline>'' @
     ''}\<newline>'' @
     ''fn clamp_time() {}\<newline>''"

text \<open>The offsets the keys of these three documents resolve to.\<close>

definition marks_ordered :: markers where
  "marks_ordered = \<lparr>frame_cache_start = 94, frame_cache_impl_end = 114,
     renderer_start = 114, plate_start = 165, layers_start = 216, utils_start = 239\<rparr>"

definition marks_utils_first :: markers where
  "marks_utils_first = \<lparr>frame_cache_start = 84, frame_cache_impl_end = 103,
     renderer_start = 103, plate_start = 143, layers_start = 212, utils_start = 193\<rparr>"

definition marks_layers_first :: markers where
  "marks_layers_first = \<lparr>frame_cache_start = 84, frame_cache_impl_end = 125,
     renderer_start = 125, plate_start = 165, layers_start = 103, utils_start = 215\<rparr>"

subsection \<open>Searched literals, paths and effects\<close>

text \<open>Every literal the script searches for: the marker keys and the three line
  patterns.\<close>

definition search_keys :: "string list" where
  "search_keys = marker_keys @ [''#[derive'', ''PreviewStats'', ''const DEFAULT_MAX_PREVIEW_WIDTH'']"

text \<open>The absolute path of the original document.\<close>

definition doc_path :: string where
  "doc_path = repo_dir @ ''/'' @ preview_rs"

text \<open>A file system whose document lacks the utilities key.\<close>

definition fs_no_utils :: fs where
  "fs_no_utils = \<lparr>cwd = ''/home'',
     files = [doc_path \<mapsto> ''struct FrameCache;''], dirs = {repo_dir}, trace = []\<rparr>"

text \<open>The lines the two line patterns are looked for in (\<open>types_block.splitlines()\<close>,
  line 25), and what the two \<open>next(...)\<close> searches look for: a line that starts with the
  constant's name, and a line whose stripped text starts with \<open>#[derive\<close> directly
  followed by a line that holds \<open>PreviewStats\<close>.\<close>

definition leading_lines :: "string \<Rightarrow> string list" where
  "leading_lines text =
     (case find_sub key_frame_cache text of
        None \<Rightarrow> []
      | Some a \<Rightarrow> splitlines (take a text))"

definition has_const_line :: "string list \<Rightarrow> bool" where
  "has_const_line ls = (\<exists>l\<in>set ls. prefix ''const DEFAULT_MAX_PREVIEW_WIDTH'' l)"

fun has_stats_pair :: "string list \<Rightarrow> bool" where
  "has_stats_pair (l # l' # ls) =
     (prefix ''#[derive'' (strip l) \<and> contains ''PreviewStats'' l' \<or> has_stats_pair (l' # ls))"
| "has_stats_pair ls = False"

text \<open>A document that holds every searched literal but no line that starts with the
  constant's name, and a file system holding it.\<close>

definition doc_pub_const :: string where
  "doc_pub_const =
     ''pub const DEFAULT_MAX_PREVIEW_WIDTH: u32 = 1;\<newline>'' @
     ''#[derive(Debug)]\<newline>'' @
     ''pub struct PreviewStats;\<newline>'' @
     ''struct FrameCache;\<newline>'' @
     ''/// Generates composited preview frames\<newline>'' @
     ''impl PreviewRenderer {\<newline>'' @
     ''    fn plate_images() {}\<newline>'' @
     ''}\<newline>'' @
     ''struct PendingDecode;\<newline>'' @
     ''fn clamp_time() {}\<newline>''"

definition fs_pub_const :: fs where
  "fs_pub_const = \<lparr>cwd = ''/home'', files = [doc_path \<mapsto> doc_pub_const],
     dirs = {repo_dir}, trace = []\<rparr>"

text \<open>The six files in the order of the \<open>write_text\<close> calls, and their contents.\<close>

definition unit_names :: "string list" where
  "unit_names = [''mod.rs'', ''types.rs'', ''cache.rs'', ''renderer.rs'', ''layers.rs'', ''utils.rs'']"

definition unit_paths :: "string list" where
  "unit_paths = map (\<lambda>n. repo_dir @ ''/src/core/preview/'' @ n) unit_names"

definition unit_texts :: "string \<Rightarrow> parts \<Rightarrow> string list" where
  "unit_texts text p = [mod_rs, types_rs p, cache_rs text p, renderer_rs text p,
     layers_rs text p, utils_rs text p]"

text \<open>What a run from state \<open>s\<close> to state \<open>s'\<close> has added to the trace, and the paths
  written by a list of events.\<close>

definition new_events :: "fs \<Rightarrow> fs \<Rightarrow> event list" where
  "new_events s s' = drop (length (trace s)) (trace s')"

fun written :: "event list \<Rightarrow> string list" where
  "written [] = []"
| "written (WriteText p c # es) = p # written es"
| "written (e # es) = written es"

text \<open>The absolute path of the directory made for the units.\<close>

definition preview_dir :: string where
  "preview_dir = repo_dir @ ''/src/core/preview''"

text \<open>Two file systems holding the ordered sample document; the second has another
  working directory, an older \<open>mod.rs\<close> and the target directory already.\<close>

definition sample_fs :: fs where
  "sample_fs = \<lparr>cwd = ''/home'', files = [doc_path \<mapsto> doc_ordered],
     dirs = {repo_dir}, trace = []\<rparr>"

definition sample_fs_stale :: fs where
  "sample_fs_stale = \<lparr>cwd = ''/tmp'',
     files = [doc_path \<mapsto> doc_ordered, repo_dir @ ''/src/core/preview/mod.rs'' \<mapsto> ''old''],
     dirs = {repo_dir, preview_dir}, trace = [Unlink ''/tmp/x'']\<rparr>"

subsection \<open>Reading the aggregator\<close>

text \<open>
  The statements of the aggregator text: a line \<open>mod u;\<close> declares the unit \<open>u\<close>, a
  line \<open>pub use u::x;\<close> or \<open>pub use u::{x, y};\<close> re-exports the symbols after the
  \<open>::\<close> from the unit \<open>u\<close>; \<open>*\<close> stands for every public symbol of the unit.
\<close>

datatype statement = Declaration string | Reexport string "string list"

fun split_on :: "char \<Rightarrow> string \<Rightarrow> string list" where
  "split_on c [] = [[]]"
| "split_on c (x # xs) =
     (if x = c then [] # split_on c xs
      else (case split_on c xs of [] \<Rightarrow> [[x]] | l # ls \<Rightarrow> (x # l) # ls))"

definition parse_statement :: "string \<Rightarrow> statement option" where
  "parse_statement l =
     (if prefix ''mod '' l \<and> suffix '';'' l then Some (Declaration (butlast (drop 4 l)))
      else if prefix ''pub use '' l \<and> suffix '';'' l then
        (let b = butlast (drop 8 l);
             u = takeWhile (\<lambda>c. c \<noteq> CHR '':'') b;
             r = drop 2 (dropWhile (\<lambda>c. c \<noteq> CHR '':'') b)
         in Some (Reexport u
              (map strip (split_on CHR '','' (filter (\<lambda>c. c \<noteq> CHR ''{'' \<and> c \<noteq> CHR ''}'') r)))))
      else None)"

definition statements :: "string \<Rightarrow> statement list" where
  "statements s = List.map_filter parse_statement (splitlines s)"

fun declared :: "statement list \<Rightarrow> string list" where
  "declared [] = []"
| "declared (Declaration u # xs) = u # declared xs"
| "declared (x # xs) = declared xs"

fun reexported :: "statement list \<Rightarrow> (string \<times> string list) list" where
  "reexported [] = []"
| "reexported (Reexport u ss # xs) = (u, ss) # reexported xs"
| "reexported (x # xs) = reexported xs"

text \<open>The symbols re-exported by name, and the units re-exported as a whole.\<close>

definition named_symbols :: "statement list \<Rightarrow> string list" where
  "named_symbols sts = filter (\<lambda>x. x \<noteq> ''*'') (concat (map snd (reexported sts)))"

definition glob_units :: "statement list \<Rightarrow> string list" where
  "glob_units sts = map fst (filter (\<lambda>x. ''*'' \<in> set (snd x)) (reexported sts))"

text \<open>The units split off the document, in the order in which the script composes them
  (lines 47 to 103) and writes them (lines 106 to 110): the file names after \<open>mod.rs\<close>,
  without \<open>.rs\<close>.\<close>

definition split_off_units :: "string list" where
  "split_off_units = map (\<lambda>n. rev (drop 3 (rev n))) (tl unit_names)"

text \<open>A document that defines the public name \<open>Dup\<close> both among the types and among
  the utilities, and a file system holding it.\<close>

definition doc_dup :: string where
  "doc_dup =
     ''const DEFAULT_MAX_PREVIEW_WIDTH: u32 = 1;\<newline>'' @
     ''#[derive(Debug)]\<newline>'' @
     ''pub struct PreviewStats;\<newline>'' @
     ''pub struct Dup;\<newline>'' @
     ''struct FrameCache;\<newline>'' @
     ''/// Generates composited preview frames\<newline>'' @
     ''impl PreviewRenderer {\<newline>'' @
     ''    fn plate_images() {}\<newline>'' @
     ''}\<newline>'' @
     ''struct PendingDecode;\<newline>'' @
     ''fn clamp_time() {}\<newline>'' @
     ''pub struct Dup;\<newline>''"

definition fs_dup :: fs where
  "fs_dup = \<lparr>cwd = ''/home'', files = [doc_path \<mapsto> doc_dup], dirs = {repo_dir}, trace = []\<rparr>"

text \<open>What the script computes from the first two sample documents before it composes
  the units.\<close>

definition parts_ordered :: parts where
  "parts_ordered =
     \<lparr>marks = marks_ordered,
      lines = [''use a;'', [], ''const DEFAULT_MAX_PREVIEW_WIDTH: u32 = 1;'', [],
               ''#[derive(Debug)]'', ''pub struct PreviewStats;'', []],
      preview_stats_idx = 4, const_start = 2, uses = [''use a;''], rest = [],
      const_block = ''const DEFAULT_MAX_PREVIEW_WIDTH: u32 = 1;'',
      type_block = ''#[derive(Debug)]\<newline>pub struct PreviewStats;''\<rparr>"

definition parts_utils_first :: parts where
  "parts_utils_first =
     \<lparr>marks = marks_utils_first,
      lines = [''const DEFAULT_MAX_PREVIEW_WIDTH: u32 = 1;'', ''#[derive(Debug)]'',
               ''pub struct PreviewStats;''],
      preview_stats_idx = 1, const_start = 0, uses = [], rest = [],
      const_block = ''const DEFAULT_MAX_PREVIEW_WIDTH: u32 = 1;'',
      type_block = ''#[derive(Debug)]\<newline>pub struct PreviewStats;''\<rparr>"

text \<open>The derive line of \<open>PreviewStats\<close> before the line of the constant.\<close>

definition doc_stats_first :: string where
  "doc_stats_first =
     ''#[derive(Debug)]\<newline>'' @
     ''pub struct PreviewStats;\<newline>'' @
     ''const DEFAULT_MAX_PREVIEW_WIDTH: u32 = 1;\<newline>'' @
     ''struct FrameCache;\<newline>'' @
     ''/// Generates composited preview frames\<newline>'' @
     ''impl PreviewRenderer {\<newline>'' @
     ''    fn plate_images() {}\<newline>'' @
     ''}\<newline>'' @
     ''struct PendingDecode;\<newline>'' @
     ''fn clamp_time() {}\<newline>''"

subsection \<open>Composition\<close>

text \<open>The four units that have a header: the header, the block and the unit text.\<close>

definition header_units :: "string \<Rightarrow> parts \<Rightarrow> (string \<times> string \<times> string) list" where
  "header_units text p =
     [(cache_header, cache_block text (marks p), cache_rs text p),
      (renderer_header, renderer_block text (marks p), renderer_rs text p),
      (layers_header, layers_block text (marks p), layers_rs text p),
      (utils_header, utils_block text (marks p), utils_rs text p)]"

text \<open>The text ends with a line feed, and the character before it ends no line.\<close>

definition single_terminator :: "string \<Rightarrow> bool" where
  "single_terminator body =
     (case rev body of
        n # c # r \<Rightarrow> n = CHR 0x0A \<and> \<not> is_linebreak c
      | _ \<Rightarrow> False)"

section \<open>Properties\<close>

subsection \<open>Searching and slicing\<close>

lemma find_sub_None_iff: "find_sub sub s = None \<longleftrightarrow> \<not> sublist sub s"
  by (induction s) (auto simp: sublist_Cons_right)

lemma find_sub_Some:
  "find_sub sub s = Some i \<Longrightarrow>
     prefix sub (drop i s) \<and> i + length sub \<le> length s \<and> (\<forall>j<i. \<not> prefix sub (drop j s))"
proof (induction s arbitrary: i)
  case Nil
  then show ?case by (simp split: if_splits)
next
  case (Cons c cs)
  show ?case
  proof (cases "prefix sub (c # cs)")
    case True
    with Cons.prems have "i = 0" by simp
    with True show ?thesis using prefix_length_le by fastforce
  next
    case False
    with Cons.prems obtain k where k: "find_sub sub cs = Some k" "i = Suc k" by auto
    from Cons.IH[OF k(1)] have ih: "prefix sub (drop k cs)" "k + length sub \<le> length cs"
      "\<forall>j<k. \<not> prefix sub (drop j cs)" by auto
    have "\<not> prefix sub (drop j (c # cs))" if "j < i" for j
      using that False ih(3) k(2) by (cases j) auto
    with ih k(2) show ?thesis by simp
  qed
qed

lemma contains_iff_sublist: "contains sub s \<longleftrightarrow> sublist sub s"
  by (simp add: contains_def find_sub_None_iff)

lemma index_Inr: "index s sub = Inr i \<longleftrightarrow> find_sub sub s = Some i"
  by (simp add: index_def split: option.splits)

lemma index_Inl: "index s sub = Inl e \<longleftrightarrow> e = ValueError \<and> \<not> sublist sub s"
  by (auto simp: index_def find_sub_None_iff[symmetric] split: option.splits)

lemma bind_Inr: "bind r f = Inr y \<longleftrightarrow> (\<exists>x. r = Inr x \<and> f x = Inr y)"
  by (cases r) (simp_all add: bind_def)

lemma bind_Inl: "bind r f = Inl e \<longleftrightarrow> r = Inl e \<or> (\<exists>x. r = Inr x \<and> f x = Inl e)"
  by (cases r) (simp_all add: bind_def)

lemma locate_Inr:
  "locate text = Inr m \<longleftrightarrow>
     find_sub key_frame_cache text = Some (frame_cache_start m) \<and>
     find_sub key_renderer text = Some (frame_cache_impl_end m) \<and>
     find_sub key_renderer text = Some (renderer_start m) \<and>
     find_sub key_plate text = Some (plate_start m) \<and>
     find_sub key_layers text = Some (layers_start m) \<and>
     find_sub key_utils text = Some (utils_start m)"
  by (cases m) (auto simp: locate_def bind_Inr index_Inr)

lemma locate_Inl:
  "locate text = Inl e \<longleftrightarrow>
     e = ValueError \<and> (\<not> sublist key_frame_cache text \<or> \<not> sublist key_renderer text \<or>
       \<not> sublist key_plate text \<or> \<not> sublist key_layers text \<or> \<not> sublist key_utils text)"
  unfolding locate_def bind_Inl index_Inl
  by (auto simp: index_def find_sub_None_iff split: option.splits)

lemma take_slice: "a \<le> b \<Longrightarrow> take a s @ slice s a b = take b s"
  by (metis slice_def le_add_diff_inverse take_add)

lemma slice_drop: "a \<le> b \<Longrightarrow> slice s a b @ drop b s = drop a s"
  by (metis slice_def append_take_drop_id drop_drop le_add_diff_inverse add.commute)

lemma slice_nonempty: "a < b \<Longrightarrow> b \<le> length s \<Longrightarrow> slice s a b \<noteq> []"
  by (simp add: slice_def)

lemma first_at_find_sub: "find_sub key text = Some i \<Longrightarrow> first_at key text i"
  unfolding first_at_def by (rule find_sub_Some)

lemma plate_layers_differ:
  assumes "find_sub key_plate text = Some d" and "find_sub key_layers text = Some l"
  shows "d \<noteq> l"
proof
  assume "d = l"
  with assms have "prefix key_plate (drop d text)" "prefix key_layers (drop d text)"
    using find_sub_Some by blast+
  then obtain r r' where "drop d text = key_plate @ r" "drop d text = key_layers @ r'"
    by (auto simp: prefix_def)
  then show False by (simp add: key_plate_def key_layers_def)
qed

lemma resolve_marks: "resolve text = Inr p \<Longrightarrow> locate text = Inr (marks p)"
  by (auto simp: resolve_def bind_Inr Let_def)

lemma resolve_doc_ordered: "resolve doc_ordered = Inr parts_ordered"
  by code_simp

lemma resolve_doc_utils_first: "resolve doc_utils_first = Inr parts_utils_first"
  by code_simp

lemma resolve_doc_layers_first:
  "resolve doc_layers_first =
     Inr \<lparr>marks = marks_layers_first,
          lines = [''const DEFAULT_MAX_PREVIEW_WIDTH: u32 = 1;'', ''#[derive(Debug)]'',
                   ''pub struct PreviewStats;''],
          preview_stats_idx = 1, const_start = 0, uses = [], rest = [],
          const_block = ''const DEFAULT_MAX_PREVIEW_WIDTH: u32 = 1;'',
          type_block = ''#[derive(Debug)]\<newline>pub struct PreviewStats;''\<rparr>"
  by code_simp

lemma locate_doc_ordered: "locate doc_ordered = Inr marks_ordered"
  using resolve_marks[OF resolve_doc_ordered] by (simp add: parts_ordered_def)

subsection \<open>Coverage of the document by the blocks\<close>

text \<open>
  C2 (amended). When the keys resolve in the order of the calls, the five blocks do not
  overlap and leave out exactly the span from \<open>plate_start\<close> to \<open>layers_start\<close>: with
  that span put back between the renderer block and the layers block the document is
  reconstructed, the span is never empty, and so the five blocks alone are shorter than
  the document. No block takes up the remainder.
\<close>

theorem blocks_cover_except_plate_span:
  assumes "locate text = Inr m"
    and "frame_cache_start m \<le> frame_cache_impl_end m"
    and "renderer_start m \<le> plate_start m"
    and "plate_start m \<le> layers_start m"
    and "layers_start m \<le> utils_start m"
  shows "types_block text m @ cache_block text m @ renderer_block text m @
           slice text (plate_start m) (layers_start m) @
           layers_block text m @ utils_block text m = text
         \<and> slice text (plate_start m) (layers_start m) \<noteq> []
         \<and> length (concat (blocks_in_order text m)) < length text"
proof -
  from assms(1)[unfolded locate_Inr]
  have fs: "find_sub key_renderer text = Some (frame_cache_impl_end m)"
    "find_sub key_renderer text = Some (renderer_start m)"
    "find_sub key_plate text = Some (plate_start m)"
    "find_sub key_layers text = Some (layers_start m)"
    by blast+
  from fs(1,2) have eq: "renderer_start m = frame_cache_impl_end m" by simp
  from fs(3,4) have ne: "plate_start m \<noteq> layers_start m" by (rule plate_layers_differ)
  with assms(4) have lt: "plate_start m < layers_start m" by simp
  from find_sub_Some[OF fs(4)] have le: "layers_start m \<le> length text" by simp
  let ?gap = "slice text (plate_start m) (layers_start m)"
  have gap: "?gap \<noteq> []" using lt le by (rule slice_nonempty)
  have 1: "types_block text m @ cache_block text m = take (frame_cache_impl_end m) text"
    unfolding types_block_def cache_block_def using assms(2) by (rule take_slice)
  have 2: "take (frame_cache_impl_end m) text @ renderer_block text m = take (plate_start m) text"
    unfolding renderer_block_def eq using assms(3) eq by (simp add: take_slice)
  have 3: "take (plate_start m) text @ ?gap = take (layers_start m) text"
    using assms(4) by (rule take_slice)
  have 4: "layers_block text m @ utils_block text m = drop (layers_start m) text"
    unfolding layers_block_def utils_block_def using assms(5) by (rule slice_drop)
  have whole: "types_block text m @ cache_block text m @ renderer_block text m @ ?gap @
      layers_block text m @ utils_block text m = text"
  proof -
    have "types_block text m @ cache_block text m @ renderer_block text m @ ?gap @
      layers_block text m @ utils_block text m =
      (((types_block text m @ cache_block text m) @ renderer_block text m) @ ?gap) @
      (layers_block text m @ utils_block text m)" by simp
    also have "\<dots> = take (layers_start m) text @ drop (layers_start m) text"
      by (simp only: 1 2 3 4)
    finally show ?thesis by simp
  qed
  have "length text = length (concat (blocks_in_order text m)) + length ?gap"
    by (subst (1) whole[symmetric]) (simp add: blocks_in_order_def)
  moreover have "0 < length ?gap" using gap by simp
  ultimately show ?thesis using whole gap by simp
qed

theorem blocks_cover_except_plate_span_witness:
  "locate doc_ordered = Inr marks_ordered \<and>
   types_block doc_ordered marks_ordered @ cache_block doc_ordered marks_ordered @
     renderer_block doc_ordered marks_ordered @ slice doc_ordered 165 216 @
     layers_block doc_ordered marks_ordered @ utils_block doc_ordered marks_ordered
     = doc_ordered \<and>
   length (concat (blocks_in_order doc_ordered marks_ordered)) < length doc_ordered"
  using blocks_cover_except_plate_span[OF locate_doc_ordered] locate_doc_ordered
  by (simp add: marks_ordered_def)

text \<open>C2 as stated fails: on the ordered sample document the concatenation of the five
  blocks is not the document.\<close>

theorem blocks_do_not_cover:
  "locate doc_ordered = Inr marks_ordered \<and>
   concat (blocks_in_order doc_ordered marks_ordered) \<noteq> doc_ordered"
proof -
  have "concat (blocks_in_order doc_ordered marks_ordered) \<noteq> doc_ordered" by code_simp
  with locate_doc_ordered show ?thesis by simp
qed

subsection \<open>How the offsets are found\<close>

text \<open>
  C3 (amended). Every marker is located by a search of the whole document from offset 0,
  whatever the other markers resolved to: each resolved offset is the first place in the
  document where its key starts, and the two searches for the renderer key give the
  same offset.
\<close>

theorem offsets_are_first_occurrences:
  assumes "locate text = Inr m"
  shows "first_at key_frame_cache text (frame_cache_start m) \<and>
         first_at key_renderer text (frame_cache_impl_end m) \<and>
         first_at key_renderer text (renderer_start m) \<and>
         renderer_start m = frame_cache_impl_end m \<and>
         first_at key_plate text (plate_start m) \<and>
         first_at key_layers text (layers_start m) \<and>
         first_at key_utils text (utils_start m)"
proof -
  from assms[unfolded locate_Inr]
  have "find_sub key_renderer text = Some (frame_cache_impl_end m)"
    "find_sub key_renderer text = Some (renderer_start m)" by blast+
  then have "renderer_start m = frame_cache_impl_end m" by simp
  with assms show ?thesis unfolding locate_Inr by (blast intro: first_at_find_sub)
qed

theorem offsets_are_first_occurrences_witness:
  "locate doc_ordered = Inr marks_ordered \<and>
   first_at key_frame_cache doc_ordered 94 \<and>
   first_at key_renderer doc_ordered 114 \<and>
   first_at key_plate doc_ordered 165 \<and>
   first_at key_layers doc_ordered 216 \<and>
   first_at key_utils doc_ordered 239"
  using offsets_are_first_occurrences[OF locate_doc_ordered] locate_doc_ordered
  by (simp add: marks_ordered_def)

text \<open>C3 as stated fails: with the utilities key before the layers key the offsets
  decrease, no exception is raised and the layers block is empty.\<close>

theorem offsets_decrease_silently:
  "locate doc_utils_first = Inr marks_utils_first \<and>
   utils_start marks_utils_first < layers_start marks_utils_first \<and>
   layers_block doc_utils_first marks_utils_first = [] \<and>
   \<not> isl (resolve doc_utils_first)"
  using resolve_marks[OF resolve_doc_utils_first]
  by (simp add: resolve_doc_utils_first parts_utils_first_def marks_utils_first_def
      layers_block_def slice_def)

lemma resolve_locate_Inl: "locate text = Inl e \<Longrightarrow> resolve text = Inl e"
  by (simp add: resolve_def bind_def)

text \<open>
  C4 (amended). When a marker key occurs nowhere in the document, the search for it
  raises ValueError, which carries no marker name, and the resolution as a whole ends
  with that ValueError. There is no minimum offset: the search starts at offset 0.
\<close>

theorem absent_marker_ValueError:
  assumes "k \<in> set marker_keys" and "\<not> sublist k text"
  shows "index text k = Inl ValueError \<and> locate text = Inl ValueError \<and>
         resolve text = Inl ValueError"
proof -
  from assms have "locate text = Inl ValueError"
    unfolding locate_Inl marker_keys_def by auto
  with assms(2) show ?thesis by (simp add: resolve_locate_Inl index_Inl)
qed

theorem absent_marker_ValueError_witness:
  "key_layers \<in> set marker_keys \<and> \<not> sublist key_layers ''fn clamp_time'' \<and>
   locate ''fn clamp_time'' = Inl ValueError \<and> resolve ''fn clamp_time'' = Inl ValueError"
proof -
  have 1: "key_layers \<in> set marker_keys" by (simp add: marker_keys_def)
  have 2: "\<not> sublist key_layers ''fn clamp_time''" by code_simp
  from absent_marker_ValueError[OF 1 2] 1 2 show ?thesis by simp
qed

text \<open>C4 as stated fails: the layers key occurs only before the offset of the marker
  that precedes it, yet it is found (at offset 103) and the resolution succeeds.\<close>

theorem marker_before_minimum_offset_found:
  "locate doc_layers_first = Inr marks_layers_first \<and>
   find_sub key_layers (drop (plate_start marks_layers_first) doc_layers_first) = None \<and>
   index doc_layers_first key_layers = Inr 103 \<and>
   \<not> isl (resolve doc_layers_first)"
proof -
  have l: "locate doc_layers_first = Inr marks_layers_first"
    using resolve_marks[OF resolve_doc_layers_first] by simp
  then have "find_sub key_layers doc_layers_first = Some (layers_start marks_layers_first)"
    unfolding locate_Inr by blast
  then have i: "index doc_layers_first key_layers = Inr 103"
    by (simp add: index_Inr marks_layers_first_def)
  have n: "find_sub key_layers (drop 165 doc_layers_first) = None" by code_simp
  from l i n show ?thesis
    by (simp add: resolve_doc_layers_first marks_layers_first_def)
qed

subsection \<open>Lines and stripping\<close>

lemma splitlines_first_prefix: "splitlines s = l # ls \<Longrightarrow> prefix l s"
  by (induction s arbitrary: l ls rule: splitlines.induct)
     (auto split: if_splits list.splits)

lemma splitlines_sublist: "l \<in> set (splitlines s) \<Longrightarrow> sublist l s"
proof (induction s arbitrary: l rule: splitlines.induct)
  case 1
  then show ?case by simp
next
  case (2 c)
  then show ?case by (auto split: if_splits)
next
  case (3 c d cs)
  show ?case
  proof (cases "c = CHR 0x0D \<and> d = CHR 0x0A")
    case True
    with 3 have "l = [] \<or> sublist l cs" by auto
    then show ?thesis by (auto simp: sublist_Cons_right)
  next
    case nocrlf: False
    show ?thesis
    proof (cases "is_linebreak c")
      case True
      with nocrlf 3 have "l = [] \<or> sublist l (d # cs)" by auto
      then show ?thesis by (auto simp: sublist_Cons_right[of l c])
    next
      case False
      show ?thesis
      proof (cases "splitlines (d # cs)")
        case Nil
        with nocrlf False "3.prems" have "l = [c]" by (auto split: if_splits)
        then show ?thesis by simp
      next
        case (Cons l0 ls)
        with nocrlf False "3.prems" have "l = c # l0 \<or> l \<in> set ls" by (auto split: if_splits)
        then show ?thesis
        proof
          assume "l = c # l0"
          moreover have "prefix l0 (d # cs)" using Cons by (rule splitlines_first_prefix)
          ultimately show ?thesis by (simp add: prefix_imp_sublist)
        next
          assume "l \<in> set ls"
          with Cons have "l \<in> set (splitlines (d # cs))" by simp
          with "3.IH"(3) nocrlf False have "sublist l (d # cs)" by blast
          then show ?thesis by (simp add: sublist_Cons_right[of l c])
        qed
      qed
    qed
  qed
qed

lemma strip_decomp:
  "\<exists>a b. s = a @ strip s @ b \<and> (\<forall>c\<in>set a. is_space c) \<and> (\<forall>c\<in>set b. is_space c)"
proof -
  let ?x = "dropWhile is_space s"
  have 1: "s = takeWhile is_space s @ ?x" by simp
  have 2: "?x = strip s @ rev (takeWhile is_space (rev ?x))"
    unfolding strip_def by (metis rev_append rev_rev_ident takeWhile_dropWhile_id)
  have "s = takeWhile is_space s @ strip s @ rev (takeWhile is_space (rev ?x))"
    using 1 2 by metis
  moreover have "\<forall>c\<in>set (takeWhile is_space s). is_space c"
    by (auto dest: set_takeWhileD)
  moreover have "\<forall>c\<in>set (rev (takeWhile is_space (rev ?x))). is_space c"
    by (auto dest: set_takeWhileD)
  ultimately show ?thesis by blast
qed

lemma strip_sublist: "sublist (strip s) s"
  using strip_decomp[of s] by (auto simp: sublist_def)

lemma find_const_Inr: "find_const ls i = Inr c \<Longrightarrow>
    \<exists>l\<in>set ls. prefix ''const DEFAULT_MAX_PREVIEW_WIDTH'' l"
  by (induction ls arbitrary: i) (auto split: if_splits)

lemma find_preview_stats_Inr: "find_preview_stats ls i = Inr p \<Longrightarrow>
    \<exists>l\<in>set ls. \<exists>l'\<in>set ls. prefix ''#[derive'' (strip l) \<and> contains ''PreviewStats'' l'"
  by (induction ls i rule: find_preview_stats.induct) (auto split: if_splits)

lemma sublist_trans: "sublist a b \<Longrightarrow> sublist b c \<Longrightarrow> sublist a c"
  unfolding sublist_def by (metis append.assoc)

lemma resolve_Inr_keys:
  assumes "resolve text = Inr p" and "k \<in> set search_keys"
  shows "sublist k text"
proof -
  from assms(1) obtain m q c where m: "locate text = Inr m"
    and q: "find_preview_stats (splitlines (types_block text m)) 0 = Inr q"
    and c: "find_const (splitlines (types_block text m)) 0 = Inr c"
    by (auto simp: resolve_def bind_Inr Let_def)
  have line: "sublist x text" if "l \<in> set (splitlines (types_block text m))" "sublist x l" for x l
  proof -
    from that(1) have "sublist l (types_block text m)" by (rule splitlines_sublist)
    moreover have "sublist (types_block text m) text" by (simp add: types_block_def)
    ultimately show ?thesis using that(2) by (blast intro: sublist_trans)
  qed
  from find_const_Inr[OF c] have k1: "sublist ''const DEFAULT_MAX_PREVIEW_WIDTH'' text"
    by (blast intro: line prefix_imp_sublist)
  from find_preview_stats_Inr[OF q] obtain l l' where
    l: "l \<in> set (splitlines (types_block text m))" "prefix ''#[derive'' (strip l)" and
    l': "l' \<in> set (splitlines (types_block text m))" "contains ''PreviewStats'' l'" by blast
  from l(2) have "sublist ''#[derive'' l"
    by (blast intro: sublist_trans prefix_imp_sublist strip_sublist)
  with l(1) have k2: "sublist ''#[derive'' text" by (blast intro: line)
  from l' have k3: "sublist ''PreviewStats'' text" by (auto intro: line simp: contains_iff_sublist)
  have k4: "k \<in> set marker_keys \<Longrightarrow> sublist k text"
    using locate_Inl[of "text" ValueError] m by (auto simp: marker_keys_def)
  from assms(2) k1 k2 k3 k4 show ?thesis by (auto simp: search_keys_def)
qed

subsection \<open>Failure before any effect\<close>

lemma script_unfold:
  "script s =
     (if repo_dir \<notin> dirs s then (Inl FileNotFoundError, s)
      else if doc_path \<in> dirs s then (Inl IsADirectoryError, s\<lparr>cwd := repo_dir\<rparr>)
      else case files s doc_path of
             None \<Rightarrow> (Inl FileNotFoundError, s\<lparr>cwd := repo_dir\<rparr>)
           | Some text \<Rightarrow>
               (case resolve text of
                  Inl e \<Rightarrow> (Inl e, s\<lparr>cwd := repo_dir\<rparr>)
                | Inr p \<Rightarrow> seq (mkdir ''src/core/preview'') (\<lambda>_. commit text p)
                            (s\<lparr>cwd := repo_dir\<rparr>)))"
  by (simp add: script_def seq_def chdir_def read_text_def pure_def abspath_def doc_path_def
      split: option.splits sum.splits)

lemma find_const_has: "(\<exists>c. find_const ls i = Inr c) \<longleftrightarrow> has_const_line ls"
  by (induction ls arbitrary: i) (auto simp: has_const_line_def)

lemma find_preview_stats_has:
  "(\<exists>q. find_preview_stats ls i = Inr q) \<longleftrightarrow> has_stats_pair ls"
  by (induction ls i rule: find_preview_stats.induct) auto

lemma leading_lines_locate:
  "locate text = Inr m \<Longrightarrow> leading_lines text = splitlines (types_block text m)"
  by (simp add: locate_Inr leading_lines_def types_block_def)

lemma resolve_Inr_iff:
  "(\<exists>p. resolve text = Inr p) \<longleftrightarrow>
     (\<forall>k\<in>set marker_keys. sublist k text) \<and>
     has_stats_pair (leading_lines text) \<and> has_const_line (leading_lines text)"
proof
  assume "\<exists>p. resolve text = Inr p"
  then obtain p where p: "resolve text = Inr p" ..
  then obtain m where m: "locate text = Inr m"
    and q: "\<exists>q. find_preview_stats (splitlines (types_block text m)) 0 = Inr q"
    and c: "\<exists>c. find_const (splitlines (types_block text m)) 0 = Inr c"
    by (auto simp: resolve_def bind_Inr Let_def)
  from p have "\<forall>k\<in>set marker_keys. sublist k text"
    using resolve_Inr_keys by (auto simp: search_keys_def)
  with q c show "(\<forall>k\<in>set marker_keys. sublist k text) \<and>
     has_stats_pair (leading_lines text) \<and> has_const_line (leading_lines text)"
    by (simp add: leading_lines_locate[OF m] find_preview_stats_has find_const_has)
next
  assume a: "(\<forall>k\<in>set marker_keys. sublist k text) \<and>
     has_stats_pair (leading_lines text) \<and> has_const_line (leading_lines text)"
  then have "\<not> (\<exists>e. locate text = Inl e)"
    by (auto simp: locate_Inl marker_keys_def)
  then obtain m where m: "locate text = Inr m" by (cases "locate text") auto
  from a obtain q c where
    "find_preview_stats (splitlines (types_block text m)) 0 = Inr q"
    "find_const (splitlines (types_block text m)) 0 = Inr c"
    unfolding leading_lines_locate[OF m]
    using find_preview_stats_has[of _ 0] find_const_has[of _ 0] by blast
  with m show "\<exists>p. resolve text = Inr p"
    by (simp add: resolve_def bind_def Let_def)
qed

lemma resolve_fails_no_effect:
  assumes "files s doc_path = Some text" and "resolve text = Inl e"
  shows "\<exists>e s'. script s = (Inl e, s') \<and>
           files s' = files s \<and> dirs s' = dirs s \<and> trace s' = trace s"
  using assms by (simp add: script_unfold)

text \<open>
  C1. When a literal the script searches for occurs nowhere in the document, or the
  lines before the frame cache hold no line that starts with the constant's name, or
  no derive line directly followed by a line with \<open>PreviewStats\<close>, the resolution
  raises, the run ends with an exception, and it has changed no file and no directory
  and made no write, directory creation or removal: all searches are over before the
  first effect. By \<open>resolve_Inr_iff\<close> these are all the documents on which a search
  fails.
\<close>

theorem absent_key_no_effect:
  assumes "files s doc_path = Some text"
    and "(\<exists>k\<in>set search_keys. \<not> sublist k text) \<or>
         \<not> has_stats_pair (leading_lines text) \<or> \<not> has_const_line (leading_lines text)"
  shows "(\<exists>e. resolve text = Inl e) \<and>
         (\<exists>e s'. script s = (Inl e, s') \<and>
            files s' = files s \<and> dirs s' = dirs s \<and> trace s' = trace s)"
proof -
  have "\<not> (\<exists>p. resolve text = Inr p)"
  proof
    assume ok: "\<exists>p. resolve text = Inr p"
    then have "\<forall>k\<in>set search_keys. sublist k text" using resolve_Inr_keys by blast
    moreover from ok have "has_stats_pair (leading_lines text)"
      "has_const_line (leading_lines text)" by (simp_all add: resolve_Inr_iff)
    ultimately show False using assms(2) by blast
  qed
  then obtain e where e: "resolve text = Inl e" by (cases "resolve text") auto
  from resolve_fails_no_effect[OF assms(1) e] e show ?thesis by blast
qed

theorem absent_key_no_effect_witness:
  "files fs_pub_const doc_path = Some doc_pub_const \<and>
   sublist ''const DEFAULT_MAX_PREVIEW_WIDTH'' doc_pub_const \<and>
   sublist ''#[derive'' doc_pub_const \<and> sublist ''PreviewStats'' doc_pub_const \<and>
   \<not> has_const_line (leading_lines doc_pub_const) \<and>
   resolve doc_pub_const = Inl StopIteration \<and>
   (\<exists>e s'. script fs_pub_const = (Inl e, s') \<and> files s' = files fs_pub_const \<and>
      dirs s' = dirs fs_pub_const \<and> trace s' = trace fs_pub_const) \<and>
   files fs_no_utils doc_path = Some ''struct FrameCache;'' \<and>
   \<not> sublist key_utils ''struct FrameCache;'' \<and>
   (\<exists>e s'. script fs_no_utils = (Inl e, s') \<and> files s' = files fs_no_utils \<and>
      dirs s' = dirs fs_no_utils \<and> trace s' = trace fs_no_utils)"
proof -
  have 1: "files fs_pub_const doc_path = Some doc_pub_const"
    by (simp add: fs_pub_const_def)
  have 2: "\<not> has_const_line (leading_lines doc_pub_const)" by code_simp
  have 3: "sublist ''const DEFAULT_MAX_PREVIEW_WIDTH'' doc_pub_const \<and>
      sublist ''#[derive'' doc_pub_const \<and> sublist ''PreviewStats'' doc_pub_const"
    by code_simp
  have 4: "resolve doc_pub_const = Inl StopIteration" by code_simp
  have 5: "files fs_no_utils doc_path = Some ''struct FrameCache;''"
    by (simp add: fs_no_utils_def)
  have 6: "\<not> sublist key_utils ''struct FrameCache;''" by code_simp
  have 7: "key_utils \<in> set search_keys" by (simp add: search_keys_def marker_keys_def)
  from absent_key_no_effect[OF 1, of] 2
  have a: "\<exists>e s'. script fs_pub_const = (Inl e, s') \<and> files s' = files fs_pub_const \<and>
      dirs s' = dirs fs_pub_const \<and> trace s' = trace fs_pub_const" by blast
  from absent_key_no_effect[OF 5] 6 7
  have b: "\<exists>e s'. script fs_no_utils = (Inl e, s') \<and> files s' = files fs_no_utils \<and>
      dirs s' = dirs fs_no_utils \<and> trace s' = trace fs_no_utils" by blast
  from 1 2 3 4 5 6 a b show ?thesis by blast
qed

subsection \<open>Effects of a run\<close>

lemma mkdir_cases:
  assumes "mkdir ''src/core/preview'' s = (r, s')" and "cwd s = repo_dir"
  shows "cwd s' = repo_dir \<and> files s' = files s \<and>
     (r = Inl FileExistsError \<and> s' = s \<and> preview_dir \<notin> dirs s \<and>
        files s preview_dir \<noteq> None \<or>
      r = Inr () \<and> (s' = s \<or>
         s' = s\<lparr>dirs := insert preview_dir (dirs s), trace := trace s @ [MkDir preview_dir]\<rparr>))"
  using assms by (auto simp: mkdir_def abspath_def preview_dir_def split: if_splits)

lemma commit_effect:
  assumes "commit text p s = (r, s')" and "cwd s = repo_dir"
  shows "trace s' = trace s @ new_events s s' \<and>
     (r = Inr () \<and> written (new_events s s') = unit_paths \<and>
        cwd s' = cwd s \<and> files s' doc_path = None \<and>
        map (files s') unit_paths = map Some (unit_texts text p) \<and>
        (\<forall>q\<in>set unit_paths. q \<notin> dirs s) \<and>
        (case files s doc_path of
           None \<Rightarrow> new_events s s' = map2 WriteText unit_paths (unit_texts text p)
         | Some t \<Rightarrow> new_events s s' = map2 WriteText unit_paths (unit_texts text p) @ [Unlink doc_path])
      \<or> r = Inl IsADirectoryError \<and> (\<forall>q. Unlink q \<notin> set (new_events s s')) \<and>
        (\<exists>q\<in>set unit_paths. q \<in> dirs s))"
  using assms
  unfolding commit_def seq_def write_text_def unlink_def abspath_def new_events_def
    unit_names_def unit_texts_def unit_paths_def preview_rs_def doc_path_def
  by (auto split: if_splits option.splits)

lemma script_effect:
  assumes "script s = (r, s')"
  shows "trace s' = trace s @ new_events s s' \<and>
     ((\<exists>e. r = Inl e) \<and> (\<forall>q. Unlink q \<notin> set (new_events s s'))
      \<or> r = Inr () \<and> (\<exists>text p mk. files s doc_path = Some text \<and> resolve text = Inr p \<and>
           (mk = [] \<or> mk = [MkDir preview_dir]) \<and>
           new_events s s' = mk @ map2 WriteText unit_paths (unit_texts text p) @ [Unlink doc_path] \<and>
           map (files s') unit_paths = map Some (unit_texts text p)))"
proof (cases "repo_dir \<in> dirs s \<and> doc_path \<notin> dirs s \<and>
    (\<exists>text p. files s doc_path = Some text \<and> resolve text = Inr p)")
  case False
  with assms have "s' = s \<or> s' = s\<lparr>cwd := repo_dir\<rparr>" "\<exists>e. r = Inl e"
    by (auto simp: script_unfold split: if_splits option.splits sum.splits)
  then show ?thesis by (auto simp: new_events_def)
next
  case True
  then obtain doc p where d: "files s doc_path = Some doc" and p: "resolve doc = Inr p"
    by blast
  let ?s0 = "s\<lparr>cwd := repo_dir\<rparr>"
  from assms True d p
  have run: "seq (mkdir ''src/core/preview'') (\<lambda>_. commit doc p) ?s0 = (r, s')"
    by (simp add: script_unfold)
  obtain r1 s1 where mk: "mkdir ''src/core/preview'' ?s0 = (r1, s1)" by fastforce
  from mkdir_cases[OF mk] have s1: "cwd s1 = repo_dir" "files s1 = files s"
    and cases: "r1 = Inl FileExistsError \<and> s1 = ?s0 \<or>
      r1 = Inr () \<and> (s1 = ?s0 \<or> s1 = ?s0\<lparr>dirs := insert preview_dir (dirs ?s0),
          trace := trace ?s0 @ [MkDir preview_dir]\<rparr>)"
    by auto
  show ?thesis
  proof (cases r1)
    case (Inl e)
    with run mk cases have "s' = ?s0" "r = Inl e" by (auto simp: seq_def)
    then show ?thesis by (simp add: new_events_def)
  next
    case (Inr u)
    with run mk have c: "commit doc p s1 = (r, s')" by (simp add: seq_def)
    from Inr cases obtain mk where
      mk1: "mk = [] \<or> mk = [MkDir preview_dir]" and tr: "trace s1 = trace s @ mk"
      by auto
    from commit_effect[OF c s1(1)] have t: "trace s' = trace s1 @ new_events s1 s'"
      by (rule conjunct1)
    from d s1(2) have d1: "files s1 doc_path = Some doc" by simp
    have alt: "r = Inr () \<and> map (files s') unit_paths = map Some (unit_texts doc p) \<and>
             new_events s1 s' = map2 WriteText unit_paths (unit_texts doc p) @ [Unlink doc_path]
          \<or> r = Inl IsADirectoryError \<and> (\<forall>q. Unlink q \<notin> set (new_events s1 s'))"
      using conjunct2[OF commit_effect[OF c s1(1)]] unfolding d1 option.case by blast
    from t tr have "trace s' = trace s @ (mk @ new_events s1 s')" by simp
    then have ne: "new_events s s' = mk @ new_events s1 s'"
      by (simp add: new_events_def[of s s'])
    from t tr ne have "trace s' = trace s @ new_events s s'" by simp
    moreover have "(\<exists>e. r = Inl e) \<and> (\<forall>q. Unlink q \<notin> set (new_events s s'))
      \<or> r = Inr () \<and> (\<exists>text p mk. files s doc_path = Some text \<and> resolve text = Inr p \<and>
           (mk = [] \<or> mk = [MkDir preview_dir]) \<and>
           new_events s s' = mk @ map2 WriteText unit_paths (unit_texts text p) @ [Unlink doc_path] \<and>
           map (files s') unit_paths = map Some (unit_texts text p))"
    proof (cases "r = Inr ()")
      case True
      with alt have f: "map (files s') unit_paths = map Some (unit_texts doc p)"
        and e1: "new_events s1 s' =
          map2 WriteText unit_paths (unit_texts doc p) @ [Unlink doc_path]"
        by simp_all
      from e1 ne have e: "new_events s s' =
          mk @ map2 WriteText unit_paths (unit_texts doc p) @ [Unlink doc_path]"
        by simp
      have "\<exists>text p mk. files s doc_path = Some text \<and> resolve text = Inr p \<and>
           (mk = [] \<or> mk = [MkDir preview_dir]) \<and>
           new_events s s' = mk @ map2 WriteText unit_paths (unit_texts text p) @ [Unlink doc_path] \<and>
           map (files s') unit_paths = map Some (unit_texts text p)"
      proof (intro exI conjI)
        show "files s doc_path = Some doc" by (rule d)
        show "resolve doc = Inr p" by (rule p)
        show "mk = [] \<or> mk = [MkDir preview_dir]" by (rule mk1)
        show "new_events s s' =
          mk @ map2 WriteText unit_paths (unit_texts doc p) @ [Unlink doc_path]" by (rule e)
        show "map (files s') unit_paths = map Some (unit_texts doc p)" by (rule f)
      qed
      with True show ?thesis by simp
    next
      case False
      with alt have e: "r = Inl IsADirectoryError"
        and u: "\<forall>q. Unlink q \<notin> set (new_events s1 s')" by simp_all
      from u mk1 have "\<forall>q. Unlink q \<notin> set (new_events s s')" unfolding ne by auto
      with e show ?thesis by simp
    qed
    ultimately show ?thesis by (rule conjI)
  qed
qed

lemma unit_paths_not_preview_dir: "preview_dir \<notin> set unit_paths"
  by (simp add: unit_paths_def unit_names_def preview_dir_def)



lemma script_succeeds:
  assumes "repo_dir \<in> dirs s" and "doc_path \<notin> dirs s" and "files s doc_path = Some doc"
    and "resolve doc = Inr p"
    and "preview_dir \<in> dirs s \<or> files s preview_dir = None"
    and "\<forall>q\<in>set unit_paths. q \<notin> dirs s"
  shows "fst (script s) = Inr ()"
proof -
  let ?s0 = "s\<lparr>cwd := repo_dir\<rparr>"
  obtain r1 s1 where mk: "mkdir ''src/core/preview'' ?s0 = (r1, s1)" by fastforce
  from mkdir_cases[OF mk] assms(5) have r1: "r1 = Inr ()" and s1: "cwd s1 = repo_dir"
    and ds: "dirs s1 = dirs s \<or> dirs s1 = insert preview_dir (dirs s)"
    by auto
  from assms(1-4) mk r1 have run: "script s = commit doc p s1"
    by (simp add: script_unfold seq_def)
  obtain r s' where c: "commit doc p s1 = (r, s')" by fastforce
  have "\<not> (\<exists>q\<in>set unit_paths. q \<in> dirs s1)"
    using ds assms(6) unit_paths_not_preview_dir by auto
  with conjunct2[OF commit_effect[OF c s1]] have "r = Inr ()" by blast
  with run c show ?thesis by simp
qed



lemma sample_fs_ok: "fst (script sample_fs) = Inr ()"
  by (rule script_succeeds[OF _ _ _ resolve_doc_ordered])
     (simp_all add: sample_fs_def doc_path_def repo_dir_def preview_rs_def preview_dir_def
        unit_paths_def unit_names_def)

lemma sample_fs_stale_ok: "fst (script sample_fs_stale) = Inr ()"
  by (rule script_succeeds[OF _ _ _ resolve_doc_ordered])
     (simp_all add: sample_fs_stale_def doc_path_def repo_dir_def preview_rs_def preview_dir_def
        unit_paths_def unit_names_def)






lemma script_Inr_files:
  assumes "fst (script s) = Inr ()"
  shows "\<exists>text p. files s doc_path = Some text \<and> resolve text = Inr p \<and>
           map (files (snd (script s))) unit_paths = map Some (unit_texts text p)"
proof -
  have "script s = (Inr (), snd (script s))" using assms by (metis prod.collapse)
  from script_effect[OF this] show ?thesis by blast
qed

text \<open>
  C8. Two runs that succeed on file systems holding the same original document leave
  the same six unit files, whatever else the two file systems contain.
\<close>

theorem same_document_same_units:
  assumes "files s1 doc_path = files s2 doc_path"
    and "fst (script s1) = Inr ()" and "fst (script s2) = Inr ()"
  shows "map (files (snd (script s1))) unit_paths = map (files (snd (script s2))) unit_paths"
proof -
  from script_Inr_files[OF assms(2)] obtain d1 p1 where
    1: "files s1 doc_path = Some d1" "resolve d1 = Inr p1"
       "map (files (snd (script s1))) unit_paths = map Some (unit_texts d1 p1)" by blast
  from script_Inr_files[OF assms(3)] obtain d2 p2 where
    2: "files s2 doc_path = Some d2" "resolve d2 = Inr p2"
       "map (files (snd (script s2))) unit_paths = map Some (unit_texts d2 p2)" by blast
  from assms(1) 1(1) 2(1) have "d1 = d2" by simp
  with 1(2) 2(2) have "p1 = p2" by simp
  with \<open>d1 = d2\<close> 1(3) 2(3) show ?thesis by simp
qed

theorem same_document_same_units_witness:
  "files sample_fs doc_path = files sample_fs_stale doc_path \<and>
   fst (script sample_fs) = Inr () \<and> fst (script sample_fs_stale) = Inr () \<and>
   map (files (snd (script sample_fs))) unit_paths =
   map (files (snd (script sample_fs_stale))) unit_paths"
proof -
  have 1: "files sample_fs doc_path = files sample_fs_stale doc_path"
    by (simp add: sample_fs_def sample_fs_stale_def doc_path_def repo_dir_def preview_rs_def)
  from same_document_same_units[OF 1 sample_fs_ok sample_fs_stale_ok] 1
    sample_fs_ok sample_fs_stale_ok show ?thesis by simp
qed

subsection \<open>The aggregator\<close>

lemma statements_mod_rs: "statements mod_rs =
  [Declaration ''renderer'', Declaration ''cache'', Declaration ''layers'',
   Declaration ''types'', Declaration ''utils'',
   Reexport ''renderer'' [''PreviewRenderer''],
   Reexport ''cache'' [''FrameCache'', ''CachedFrame''],
   Reexport ''layers'' [''PreviewLayer'', ''PreviewLayerStack'', ''PreviewLayerGpu''],
   Reexport ''types'' [''*''],
   Reexport ''utils'' [''*'']]"
  by code_simp

lemma script_Inr_mod_rs:
  assumes "fst (script s) = Inr ()"
  shows "files (snd (script s)) (hd unit_paths) = Some mod_rs"
proof -
  from script_Inr_files[OF assms] obtain doc p where
    "map (files (snd (script s))) unit_paths = map Some (unit_texts doc p)" by blast
  then show ?thesis by (simp add: unit_paths_def unit_names_def unit_texts_def)
qed

text \<open>
  C6 (amended). The aggregator holds, for each of the five split-off units, one
  declaration and one re-export; the five declarations come first and the five
  re-exports follow, both in the order renderer, cache, layers, types, utils, which is
  the order written in the literal.
\<close>

theorem manifest_declarations_and_reexports:
  "declared (statements mod_rs) = [''renderer'', ''cache'', ''layers'', ''types'', ''utils''] \<and>
   map fst (reexported (statements mod_rs)) = declared (statements mod_rs) \<and>
   set (declared (statements mod_rs)) = set split_off_units \<and>
   statements mod_rs =
     map Declaration (declared (statements mod_rs)) @
     map (\<lambda>x. Reexport (fst x) (snd x)) (reexported (statements mod_rs))"
  by (auto simp add: statements_mod_rs split_off_units_def unit_names_def)

text \<open>C6 as stated fails: the order of the declarations is not the order in which the
  script composes and writes the units (types, cache, renderer, layers, utils).\<close>

theorem manifest_order_differs:
  "declared (statements mod_rs) \<noteq> split_off_units"
  by (simp add: statements_mod_rs split_off_units_def unit_names_def)

text \<open>
  C7 (amended). The aggregator is a fixed text that every successful run writes
  unchanged, whatever the document holds: nothing is validated and no exception can
  come from it. The six symbols it re-exports by name are pairwise distinct; the units
  types and utils are re-exported as a whole.
\<close>

theorem manifest_is_fixed:
  assumes "fst (script s) = Inr ()"
  shows "files (snd (script s)) (hd unit_paths) = Some mod_rs \<and>
         named_symbols (statements mod_rs) =
           [''PreviewRenderer'', ''FrameCache'', ''CachedFrame'',
            ''PreviewLayer'', ''PreviewLayerStack'', ''PreviewLayerGpu''] \<and>
         distinct (named_symbols (statements mod_rs)) \<and>
         glob_units (statements mod_rs) = [''types'', ''utils'']"
  using script_Inr_mod_rs[OF assms]
  by (simp add: statements_mod_rs named_symbols_def glob_units_def)

theorem manifest_is_fixed_witness:
  "fst (script sample_fs) = Inr () \<and>
   files (snd (script sample_fs)) (hd unit_paths) = Some mod_rs \<and>
   distinct (named_symbols (statements mod_rs))"
  using manifest_is_fixed[OF sample_fs_ok] sample_fs_ok by simp

lemma resolve_doc_dup:
  "resolve doc_dup =
     Inr \<lparr>marks = \<lparr>frame_cache_start = 100, frame_cache_impl_end = 119, renderer_start = 119,
                    plate_start = 159, layers_start = 209, utils_start = 231\<rparr>,
          lines = [''const DEFAULT_MAX_PREVIEW_WIDTH: u32 = 1;'', ''#[derive(Debug)]'',
                   ''pub struct PreviewStats;'', ''pub struct Dup;''],
          preview_stats_idx = 1, const_start = 0, uses = [], rest = [],
          const_block = ''const DEFAULT_MAX_PREVIEW_WIDTH: u32 = 1;'',
          type_block =
            ''#[derive(Debug)]\<newline>pub struct PreviewStats;\<newline>pub struct Dup;''\<rparr>"
  by code_simp

lemma fs_dup_ok: "fst (script fs_dup) = Inr ()"
  by (rule script_succeeds[OF _ _ _ resolve_doc_dup])
     (simp_all add: fs_dup_def doc_path_def repo_dir_def preview_rs_def preview_dir_def
        unit_paths_def unit_names_def)

text \<open>C7 as stated fails: the run on a document that defines \<open>Dup\<close> in both parts
  succeeds; \<open>types.rs\<close> and \<open>utils.rs\<close> both define \<open>pub struct Dup\<close>, and the
  aggregator written re-exports both units as a whole.\<close>

theorem duplicate_reexport_emitted:
  "fst (script fs_dup) = Inr () \<and>
   files (snd (script fs_dup)) (hd unit_paths) = Some mod_rs \<and>
   glob_units (statements mod_rs) = [''types'', ''utils''] \<and>
   map_sum id types_rs (resolve doc_dup) =
     Inr (''const DEFAULT_MAX_PREVIEW_WIDTH: u32 = 1;\<newline>'' @
          ''#[derive(Debug)]\<newline>'' @
          ''pub struct PreviewStats;\<newline>'' @
          ''pub struct Dup;\<newline>'') \<and>
   map_sum id (utils_rs doc_dup) (resolve doc_dup) =
     Inr (utils_header @ ''fn clamp_time() {}\<newline>'' @ ''pub struct Dup;\<newline>'')"
proof -
  have u: "strip (drop 231 doc_dup) = ''fn clamp_time() {}\<newline>pub struct Dup;''"
    by code_simp
  have g: "glob_units (statements mod_rs) = [''types'', ''utils'']"
    by (simp add: statements_mod_rs glob_units_def)
  have t: "map_sum id types_rs (resolve doc_dup) =
     Inr (''const DEFAULT_MAX_PREVIEW_WIDTH: u32 = 1;\<newline>'' @
          ''#[derive(Debug)]\<newline>'' @
          ''pub struct PreviewStats;\<newline>'' @
          ''pub struct Dup;\<newline>'')"
    by (simp add: resolve_doc_dup types_rs_def)
  have "map_sum id (utils_rs doc_dup) (resolve doc_dup) =
     Inr (utils_header @ ''fn clamp_time() {}\<newline>'' @ ''pub struct Dup;\<newline>'')"
    by (simp add: resolve_doc_dup utils_rs_def utils_block_def u)
  with fs_dup_ok script_Inr_mod_rs[OF fs_dup_ok] g t show ?thesis by simp
qed

subsection \<open>Text before the constants\<close>

lemma splitlines_nonempty: "s \<noteq> [] \<Longrightarrow> splitlines s \<noteq> []"
  by (induction s rule: splitlines.induct) (auto split: list.splits)

lemma splitlines_append:
  "pre = [] \<or> last pre = CHR 0x0A \<Longrightarrow> splitlines (pre @ x) = splitlines pre @ splitlines x"
proof (induction pre rule: splitlines.induct)
  case 1
  then show ?case by simp
next
  case (2 c)
  then have c: "c = CHR 0x0A" by simp
  show ?case by (cases x) (simp_all add: c is_linebreak_def)
next
  case (3 c d cs)
  from "3.prems" have l: "last (d # cs) = CHR 0x0A" by simp
  then have lcs: "cs = [] \<or> last cs = CHR 0x0A" by (auto split: if_splits)
  show ?case
  proof (cases "c = CHR 0x0D \<and> d = CHR 0x0A")
    case True
    with "3.IH"(1) lcs show ?thesis by simp
  next
    case nocrlf: False
    show ?thesis
    proof (cases "is_linebreak c")
      case True
      with nocrlf "3.IH"(2) l show ?thesis by auto
    next
      case False
      have ih: "splitlines ((d # cs) @ x) = splitlines (d # cs) @ splitlines x"
        using "3.IH"(3) nocrlf False l by blast
      have ne: "splitlines (d # cs) \<noteq> []" by (rule splitlines_nonempty) simp
      then obtain l0 ls where sp: "splitlines (d # cs) = l0 # ls" by (cases "splitlines (d # cs)") auto
      have "splitlines ((c # d # cs) @ x) = (c # l0) # ls @ splitlines x"
        using nocrlf False ih sp by auto
      moreover have "splitlines (c # d # cs) = (c # l0) # ls"
        using nocrlf False sp by auto
      ultimately show ?thesis by simp
    qed
  qed
qed

lemma find_sub_append:
  "find_sub k (pre @ x) = Some i \<Longrightarrow> length pre \<le> i \<Longrightarrow> find_sub k x = Some (i - length pre)"
proof (induction pre arbitrary: i)
  case Nil
  then show ?case by simp
next
  case (Cons c pre)
  from Cons.prems have "\<not> prefix k (c # pre @ x)" by (auto split: if_splits)
  with Cons.prems obtain j where j: "find_sub k (pre @ x) = Some j" "i = Suc j" by auto
  with Cons.prems have "length pre \<le> j" by simp
  from Cons.IH[OF j(1) this] j(2) show ?case by simp
qed

lemma find_const_shift:
  "find_const ls i = Inr c \<Longrightarrow> i \<le> c \<and> find_const ls j = Inr (c - i + j)"
proof (induction ls arbitrary: i j)
  case Nil
  then show ?case by simp
next
  case (Cons l ls)
  show ?case
  proof (cases "prefix ''const DEFAULT_MAX_PREVIEW_WIDTH'' l")
    case True
    with Cons.prems show ?thesis by simp
  next
    case False
    with Cons.prems have "find_const ls (Suc i) = Inr c" by simp
    from Cons.IH[OF this, of "Suc j"]
    have le: "Suc i \<le> c" and f: "find_const ls (Suc j) = Inr (c - Suc i + Suc j)" by simp_all
    from le have "c - Suc i + Suc j = c - i + j" by arith
    with le f False show ?thesis by simp
  qed
qed

lemma find_const_append:
  "find_const (a @ b) i = Inr c \<Longrightarrow> i + length a \<le> c \<Longrightarrow>
     find_const b 0 = Inr (c - i - length a)"
proof (induction a arbitrary: i)
  case Nil
  from find_const_shift[of b i c 0] Nil show ?case by simp
next
  case (Cons l a)
  from Cons.prems have "\<not> prefix ''const DEFAULT_MAX_PREVIEW_WIDTH'' l"
    by (auto split: if_splits)
  with Cons.prems have "find_const (a @ b) (Suc i) = Inr c" by simp
  from Cons.IH[OF this] Cons.prems(2) show ?case by simp
qed

lemma find_const_zero:
  "find_const ls 0 = Inr 0 \<Longrightarrow> \<exists>l r. ls = l # r \<and> prefix ''const DEFAULT_MAX_PREVIEW_WIDTH'' l"
proof (cases ls)
  case Nil
  assume "find_const ls 0 = Inr 0"
  with Nil show ?thesis by simp
next
  case (Cons l r)
  assume a: "find_const ls 0 = Inr 0"
  show ?thesis
  proof (cases "prefix ''const DEFAULT_MAX_PREVIEW_WIDTH'' l")
    case True
    with Cons show ?thesis by simp
  next
    case False
    with a Cons have "find_const r (Suc 0) = Inr 0" by simp
    from find_const_shift[OF this] show ?thesis by simp
  qed
qed

lemma find_preview_stats_shift:
  "find_preview_stats ls i = Inr q \<Longrightarrow> i \<le> q \<and> find_preview_stats ls j = Inr (q - i + j)"
proof (induction ls i arbitrary: j rule: find_preview_stats.induct)
  case (1 i)
  then show ?case by simp
next
  case (2 l i)
  then show ?case by (simp split: if_splits)
next
  case (3 l l' ls i)
  show ?case
  proof (cases "prefix ''#[derive'' (strip l) \<and> contains ''PreviewStats'' l'")
    case True
    with "3.prems" show ?thesis by simp
  next
    case False
    with "3.prems" have "find_preview_stats (l' # ls) (Suc i) = Inr q" by simp
    from "3.IH"[OF False this, of "Suc j"]
    have le: "Suc i \<le> q"
      and f: "find_preview_stats (l' # ls) (Suc j) = Inr (q - Suc i + Suc j)" by simp_all
    from le have "q - Suc i + Suc j = q - i + j" by arith
    with le f False show ?thesis by auto
  qed
qed

lemma find_preview_stats_append:
  "find_preview_stats (a @ b) i = Inr q \<Longrightarrow> i + length a \<le> q \<Longrightarrow>
     find_preview_stats b 0 = Inr (q - i - length a)"
proof (induction a arbitrary: i)
  case Nil
  from find_preview_stats_shift[of b i q 0] Nil show ?case by simp
next
  case (Cons l a)
  show ?case
  proof (cases "a @ b")
    case Nil
    with Cons.prems show ?thesis by (simp split: if_splits)
  next
    case (Cons l' r)
    with Cons.prems have "find_preview_stats (a @ b) (Suc i) = Inr q"
      by (auto split: if_splits)
    from Cons.IH[OF this] Cons.prems(2) show ?thesis by simp
  qed
qed

lemma strip_keeps_prefix:
  assumes "prefix k s" and "k \<noteq> []" and "\<not> is_space (hd k)" and "\<not> is_space (last k)"
  shows "prefix k (strip s)"
proof -
  from assms(1) obtain r where s: "s = k @ r" by (auto simp: prefix_def)
  from assms(2,3) have d: "dropWhile is_space s = s" unfolding s by (cases k) simp_all
  have lk: "dropWhile is_space (rev k) = rev k"
    using assms(2,4) by (cases "rev k") (auto simp: last_rev[symmetric] hd_rev)
  have st: "strip s = rev (dropWhile is_space (rev r @ rev k))"
    by (simp add: strip_def d) (simp add: s)
  show ?thesis
  proof (cases "\<forall>x\<in>set (rev r). is_space x")
    case True
    then have "dropWhile is_space (rev r @ rev k) = rev k"
      by (simp add: dropWhile_append lk)
    then show ?thesis by (simp add: st)
  next
    case False
    then have "dropWhile is_space (rev r @ rev k) = dropWhile is_space (rev r) @ rev k"
      by (auto simp: dropWhile_append)
    then show ?thesis by (simp add: st)
  qed
qed

lemma join_Cons_prefix: "prefix l (join sep (l # ls))"
  by (cases ls) simp_all

lemma const_key_ends: "\<not> is_space (hd ''const DEFAULT_MAX_PREVIEW_WIDTH'') \<and>
    \<not> is_space (last ''const DEFAULT_MAX_PREVIEW_WIDTH'')"
  by (simp add: is_space_def)

lemma shift_diff: "(n::nat) \<le> a \<Longrightarrow> (b - n) - (a - n) = b - a"
  by arith

lemma slice_append_shift:
  "length pre \<le> a \<Longrightarrow> slice (pre @ x) a b = slice x (a - length pre) (b - length pre)"
  by (simp add: slice_def shift_diff)

text \<open>
  C9 (amended). When the document is a leading text of whole lines followed by a body
  whose first line is the first line that starts with the constant's name, the derive
  line of \<open>PreviewStats\<close> comes after that line, and no marker key first occurs inside
  the leading text, then the leading text reaches no unit: the script computes the
  same five unit texts from the body alone, and the types unit begins with the
  constant's line.
\<close>

theorem text_before_constants_excluded:
  assumes r: "resolve (pre @ body) = Inr p"
    and whole: "pre = [] \<or> last pre = CHR 0x0A"
    and cs: "const_start p = length (splitlines pre)"
    and lt: "const_start p < preview_stats_idx p"
    and o1: "length pre \<le> frame_cache_start (marks p)"
    and o2: "length pre \<le> frame_cache_impl_end (marks p)"
    and o3: "length pre \<le> plate_start (marks p)"
    and o4: "length pre \<le> layers_start (marks p)"
    and o5: "length pre \<le> utils_start (marks p)"
  shows "\<exists>p'. resolve body = Inr p' \<and>
           types_rs p' = types_rs p \<and>
           cache_rs body p' = cache_rs (pre @ body) p \<and>
           renderer_rs body p' = renderer_rs (pre @ body) p \<and>
           layers_rs body p' = layers_rs (pre @ body) p \<and>
           utils_rs body p' = utils_rs (pre @ body) p \<and>
           prefix ''const DEFAULT_MAX_PREVIEW_WIDTH'' (types_rs p)"
proof -
  define n where "n = length pre"
  define q where "q = preview_stats_idx p"
  define ls where "ls = splitlines (types_block (pre @ body) (marks p))"
  from r have loc: "locate (pre @ body) = Inr (marks p)"
    and fp: "find_preview_stats ls 0 = Inr q"
    and fc: "find_const ls 0 = Inr (const_start p)"
    and cb: "const_block p = strip (join ''\<newline>'' (slice ls (const_start p) q))"
    and tb: "type_block p = strip (join ''\<newline>'' (drop q ls))"
    unfolding ls_def q_def by (auto simp: resolve_def bind_Inr Let_def)
  from loc[unfolded locate_Inr] have
    f1: "find_sub key_frame_cache (pre @ body) = Some (frame_cache_start (marks p))" and
    f2: "find_sub key_renderer (pre @ body) = Some (frame_cache_impl_end (marks p))" and
    f3: "find_sub key_renderer (pre @ body) = Some (renderer_start (marks p))" and
    f4: "find_sub key_plate (pre @ body) = Some (plate_start (marks p))" and
    f5: "find_sub key_layers (pre @ body) = Some (layers_start (marks p))" and
    f6: "find_sub key_utils (pre @ body) = Some (utils_start (marks p))"
    by blast+
  from f2 f3 have rs: "renderer_start (marks p) = frame_cache_impl_end (marks p)" by simp
  define m' where "m' = \<lparr>frame_cache_start = frame_cache_start (marks p) - n,
     frame_cache_impl_end = frame_cache_impl_end (marks p) - n,
     renderer_start = renderer_start (marks p) - n,
     plate_start = plate_start (marks p) - n,
     layers_start = layers_start (marks p) - n,
     utils_start = utils_start (marks p) - n\<rparr>"
  have loc': "locate body = Inr m'"
    unfolding locate_Inr m'_def n_def
    using find_sub_append[OF f1 o1] find_sub_append[OF f2 o2] find_sub_append[OF f4 o3]
      find_sub_append[OF f5 o4] find_sub_append[OF f6 o5] rs
    by simp
  have tbk: "types_block (pre @ body) (marks p) = pre @ types_block body m'"
    using o1 by (simp add: types_block_def m'_def n_def)
  have cbk: "cache_block (pre @ body) (marks p) = cache_block body m'"
    using o1 by (simp add: cache_block_def m'_def n_def slice_append_shift)
  have rbk: "renderer_block (pre @ body) (marks p) = renderer_block body m'"
    using o2 rs by (simp add: renderer_block_def m'_def n_def slice_append_shift)
  have lbk: "layers_block (pre @ body) (marks p) = layers_block body m'"
    using o4 by (simp add: layers_block_def m'_def n_def slice_append_shift)
  have ubk: "utils_block (pre @ body) (marks p) = utils_block body m'"
    using o5 by (simp add: utils_block_def m'_def n_def)
  define L1 where "L1 = splitlines pre"
  define L2 where "L2 = splitlines (types_block body m')"
  have lsa: "ls = L1 @ L2"
    unfolding ls_def tbk L1_def L2_def using whole by (rule splitlines_append)
  from cs have c: "const_start p = length L1" by (simp add: L1_def)
  from lt c have lq: "length L1 < q" by (simp add: q_def)
  from find_const_append[of L1 L2 0 "const_start p"] fc lsa c
  have fc': "find_const L2 0 = Inr 0" by simp
  from find_preview_stats_append[of L1 L2 0 q] fp lsa lq
  have fp': "find_preview_stats L2 0 = Inr (q - length L1)" by simp
  define p' where "p' = \<lparr>marks = m', lines = L2, preview_stats_idx = q - length L1,
     const_start = 0, uses = filter (prefix ''use '') (take 0 L2), rest = [],
     const_block = strip (join ''\<newline>'' (slice L2 0 (q - length L1))),
     type_block = strip (join ''\<newline>'' (drop (q - length L1) L2))\<rparr>"
  have r': "resolve body = Inr p'"
    using loc' fp' fc' by (simp add: resolve_def bind_def Let_def p'_def L2_def)
  have "slice ls (const_start p) q = slice L2 0 (q - length L1)"
    by (simp add: slice_def lsa c)
  then have cbe: "const_block p' = const_block p" by (simp add: p'_def cb)
  have "drop q ls = drop (q - length L1) L2" using lq by (simp add: lsa)
  then have tbe: "type_block p' = type_block p" by (simp add: p'_def tb)
  have mp: "marks p' = m'" by (simp add: p'_def)
  have t: "types_rs p' = types_rs p" by (simp add: types_rs_def cbe tbe)
  have u1: "cache_rs body p' = cache_rs (pre @ body) p" by (simp add: cache_rs_def mp cbk)
  have u2: "renderer_rs body p' = renderer_rs (pre @ body) p"
    by (simp add: renderer_rs_def mp rbk)
  have u3: "layers_rs body p' = layers_rs (pre @ body) p" by (simp add: layers_rs_def mp lbk)
  have u4: "utils_rs body p' = utils_rs (pre @ body) p" by (simp add: utils_rs_def mp ubk)
  from find_const_zero[OF fc'] obtain l0 r0 where
    L2: "L2 = l0 # r0" and l0: "prefix ''const DEFAULT_MAX_PREVIEW_WIDTH'' l0" by blast
  from lq obtain k where k: "q - length L1 = Suc k" by (cases "q - length L1") simp_all
  have "slice ls (const_start p) q = l0 # take k r0"
    by (simp add: slice_def lsa c L2 k)
  then have "prefix l0 (join ''\<newline>'' (slice ls (const_start p) q))"
    by (simp add: join_Cons_prefix)
  with l0 have "prefix ''const DEFAULT_MAX_PREVIEW_WIDTH''
      (join ''\<newline>'' (slice ls (const_start p) q))"
    by (rule prefix_order.trans)
  then have pc: "prefix ''const DEFAULT_MAX_PREVIEW_WIDTH'' (const_block p)"
    unfolding cb using const_key_ends by (intro strip_keeps_prefix) simp_all
  then have "const_block p \<noteq> []" by auto
  with pc have "prefix ''const DEFAULT_MAX_PREVIEW_WIDTH'' (types_rs p)"
    by (simp add: types_rs_def prefix_append)
  with r' t u1 u2 u3 u4 show ?thesis by blast
qed

theorem text_before_constants_excluded_witness:
  "resolve (''use a;\<newline>\<newline>'' @ doc_ordered_body) = Inr parts_ordered \<and>
   (\<exists>p'. resolve doc_ordered_body = Inr p' \<and>
      types_rs p' = types_rs parts_ordered \<and>
      cache_rs doc_ordered_body p' =
        cache_rs (''use a;\<newline>\<newline>'' @ doc_ordered_body) parts_ordered \<and>
      renderer_rs doc_ordered_body p' =
        renderer_rs (''use a;\<newline>\<newline>'' @ doc_ordered_body) parts_ordered \<and>
      layers_rs doc_ordered_body p' =
        layers_rs (''use a;\<newline>\<newline>'' @ doc_ordered_body) parts_ordered \<and>
      utils_rs doc_ordered_body p' =
        utils_rs (''use a;\<newline>\<newline>'' @ doc_ordered_body) parts_ordered \<and>
      prefix ''const DEFAULT_MAX_PREVIEW_WIDTH'' (types_rs parts_ordered))"
proof -
  have r: "resolve (''use a;\<newline>\<newline>'' @ doc_ordered_body) = Inr parts_ordered"
    using resolve_doc_ordered by (simp only: doc_ordered_def)
  have w: "''use a;\<newline>\<newline>'' = [] \<or> last ''use a;\<newline>\<newline>'' = CHR 0x0A" by simp
  have c: "const_start parts_ordered = length (splitlines ''use a;\<newline>\<newline>'')"
    by code_simp
  have l: "const_start parts_ordered < preview_stats_idx parts_ordered"
    by (simp add: parts_ordered_def)
  have o: "length ''use a;\<newline>\<newline>'' \<le> frame_cache_start (marks parts_ordered)"
    "length ''use a;\<newline>\<newline>'' \<le> frame_cache_impl_end (marks parts_ordered)"
    "length ''use a;\<newline>\<newline>'' \<le> plate_start (marks parts_ordered)"
    "length ''use a;\<newline>\<newline>'' \<le> layers_start (marks parts_ordered)"
    "length ''use a;\<newline>\<newline>'' \<le> utils_start (marks parts_ordered)"
    by (simp_all add: parts_ordered_def marks_ordered_def)
  from text_before_constants_excluded[OF r w c l o] r show ?thesis by blast
qed

text \<open>C9 as stated fails: when the derive line of \<open>PreviewStats\<close> precedes the line of
  the constant, the types unit begins with the derive line and holds the text before
  the constant.\<close>

theorem types_unit_keeps_text_before_constant:
  "map_sum id types_rs (resolve doc_stats_first) =
     Inr (''#[derive(Debug)]\<newline>'' @
          ''pub struct PreviewStats;\<newline>'' @
          ''const DEFAULT_MAX_PREVIEW_WIDTH: u32 = 1;\<newline>'')"
  by code_simp

subsection \<open>Composition of the units\<close>

lemma linebreak_is_space: "is_linebreak c \<Longrightarrow> is_space c"
  by (auto simp: is_linebreak_def is_space_def)

lemma strip_empty_iff: "strip s = [] \<longleftrightarrow> (\<forall>c\<in>set s. is_space c)"
proof
  assume "strip s = []"
  then have a: "\<forall>c\<in>set (dropWhile is_space s). is_space c"
    by (simp add: strip_def dropWhile_eq_Nil_conv)
  have "dropWhile is_space s = []"
  proof (rule ccontr)
    assume ne: "dropWhile is_space s \<noteq> []"
    then have "\<not> is_space (hd (dropWhile is_space s))" by (rule hd_dropWhile)
    moreover from ne a have "is_space (hd (dropWhile is_space s))" by simp
    ultimately show False by simp
  qed
  then show "\<forall>c\<in>set s. is_space c" by (simp add: dropWhile_eq_Nil_conv)
next
  assume "\<forall>c\<in>set s. is_space c"
  then have "dropWhile is_space s = []" by (metis dropWhile_eq_Nil_conv)
  then have "strip s = rev (dropWhile is_space (rev []))" by (simp only: strip_def)
  then show "strip s = []" by simp
qed

lemma strip_ends:
  assumes "strip s \<noteq> []"
  shows "\<not> is_space (hd (strip s)) \<and> \<not> is_space (last (strip s))"
proof -
  let ?x = "dropWhile is_space s"
  let ?y = "dropWhile is_space (rev ?x)"
  from assms have y: "?y \<noteq> []" by (simp add: strip_def)
  then have hy: "\<not> is_space (hd ?y)" by (rule hd_dropWhile)
  have x: "?x \<noteq> []" using y by (cases "dropWhile is_space s") simp_all
  then have hx: "\<not> is_space (hd ?x)" by (rule hd_dropWhile)
  have "rev ?x = takeWhile is_space (rev ?x) @ ?y" by simp
  with y have "last (rev ?x) = last ?y" by (metis last_appendR)
  with x have "last ?y = hd ?x" by (simp add: last_rev)
  with hx hy y show ?thesis by (simp add: strip_def hd_rev last_rev)
qed

lemma single_terminator_snoc:
  "t \<noteq> [] \<Longrightarrow> \<not> is_space (last t) \<Longrightarrow> single_terminator (h @ t @ ''\<newline>'')"
proof -
  assume t: "t \<noteq> []" and l: "\<not> is_space (last t)"
  from t obtain c r where r: "rev t = c # r" by (cases "rev t") auto
  with t have "c = last t" by (metis last_rev list.sel(1) rev_rev_ident hd_rev rev_is_Nil_conv)
  with l have "\<not> is_linebreak c" using linebreak_is_space by blast
  with r show ?thesis by (simp add: single_terminator_def)
qed

lemma find_preview_stats_drop:
  "find_preview_stats ls i = Inr q \<Longrightarrow>
     \<exists>l r. drop (q - i) ls = l # r \<and> prefix ''#[derive'' (strip l)"
proof (induction ls i rule: find_preview_stats.induct)
  case (1 i)
  then show ?case by simp
next
  case (2 l i)
  then show ?case by (simp split: if_splits)
next
  case (3 l l' ls i)
  show ?case
  proof (cases "prefix ''#[derive'' (strip l) \<and> contains ''PreviewStats'' l'")
    case True
    with "3.prems" show ?thesis by simp
  next
    case False
    with "3.prems" have f: "find_preview_stats (l' # ls) (Suc i) = Inr q" by simp
    from find_preview_stats_shift[OF f, of 0] have "Suc i \<le> q" by simp
    then have "q - i = Suc (q - Suc i)" by arith
    with "3.IH"[OF False f] show ?thesis by simp
  qed
qed

lemma join_Cons_set: "set l \<subseteq> set (join sep (l # ls))"
  by (cases ls) auto

lemma headers_end_blank:
  "suffix '';\<newline>\<newline>'' cache_header" "suffix '';\<newline>\<newline>'' renderer_header"
  "suffix '';\<newline>\<newline>'' layers_header" "suffix '';\<newline>\<newline>'' utils_header"
  by (simp_all add: cache_header_def renderer_header_def layers_header_def utils_header_def
      suffix_def)

text \<open>
  C5 (amended). Each of the four units with a header is its header, which ends with one
  blank line, then the block without its leading and trailing white-space characters
  and otherwise unchanged, then one line feed; when the block holds a character that is
  not white space, the stripped block begins and ends with such a character and the
  unit ends with exactly one line terminator. The types unit has no header: it is the
  stripped constant lines with a line feed, when there are any, then the stripped type
  lines with a line feed, and it ends with exactly one line terminator.
\<close>

theorem unit_composition:
  assumes "resolve text = Inr p" and "(hdr, blk, body) \<in> set (header_units text p)"
  shows "body = hdr @ strip blk @ ''\<newline>'' \<and> suffix '';\<newline>\<newline>'' hdr \<and>
         (\<exists>a b. blk = a @ strip blk @ b \<and> (\<forall>c\<in>set a. is_space c) \<and> (\<forall>c\<in>set b. is_space c)) \<and>
         (strip blk \<noteq> [] \<longrightarrow>
            \<not> is_space (hd (strip blk)) \<and> \<not> is_space (last (strip blk)) \<and>
            single_terminator body) \<and>
         types_rs p =
           (if const_block p = [] then [] else const_block p @ ''\<newline>'') @
           type_block p @ ''\<newline>'' \<and>
         single_terminator (types_rs p)"
proof -
  from assms(2) have b: "body = hdr @ strip blk @ ''\<newline>''" and h: "suffix '';\<newline>\<newline>'' hdr"
    by (auto simp: header_units_def cache_rs_def renderer_rs_def layers_rs_def utils_rs_def
        headers_end_blank)
  have e: "strip blk \<noteq> [] \<longrightarrow>
            \<not> is_space (hd (strip blk)) \<and> \<not> is_space (last (strip blk)) \<and>
            single_terminator body"
    unfolding b using strip_ends[of blk] single_terminator_snoc[of "strip blk" hdr] by blast
  define ls where "ls = splitlines (types_block text (marks p))"
  from assms(1) have fp: "find_preview_stats ls 0 = Inr (preview_stats_idx p)"
    and tb: "type_block p = strip (join ''\<newline>'' (drop (preview_stats_idx p) ls))"
    unfolding ls_def by (auto simp: resolve_def bind_Inr Let_def)
  from find_preview_stats_drop[OF fp] obtain l r where
    d: "drop (preview_stats_idx p) ls = l # r" and l: "prefix ''#[derive'' (strip l)" by auto
  from l have "strip l \<noteq> []" by auto
  then obtain c where "c \<in> set l" "\<not> is_space c" by (auto simp: strip_empty_iff)
  with join_Cons_set[of l "''\<newline>''" r] have "\<not> (\<forall>c\<in>set (join ''\<newline>'' (l # r)). is_space c)"
    by blast
  then have ne: "type_block p \<noteq> []" by (simp add: tb d strip_empty_iff)
  then have "\<not> is_space (last (type_block p))" unfolding tb using strip_ends by blast
  with ne have st: "single_terminator (types_rs p)"
    unfolding types_rs_def Let_def by (rule single_terminator_snoc)
  have ty: "types_rs p =
           (if const_block p = [] then [] else const_block p @ ''\<newline>'') @
           type_block p @ ''\<newline>''"
    by (simp add: types_rs_def)
  from b h strip_decomp[of blk] e ty st show ?thesis by blast
qed

theorem unit_composition_witness:
  "resolve doc_ordered = Inr parts_ordered \<and>
   (utils_header, utils_block doc_ordered (marks parts_ordered),
      utils_rs doc_ordered parts_ordered) \<in> set (header_units doc_ordered parts_ordered) \<and>
   strip (utils_block doc_ordered (marks parts_ordered)) \<noteq> [] \<and>
   utils_rs doc_ordered parts_ordered =
     utils_header @ strip (utils_block doc_ordered (marks parts_ordered)) @ ''\<newline>'' \<and>
   single_terminator (utils_rs doc_ordered parts_ordered) \<and>
   single_terminator (types_rs parts_ordered)"
proof -
  have m: "(utils_header, utils_block doc_ordered (marks parts_ordered),
      utils_rs doc_ordered parts_ordered) \<in> set (header_units doc_ordered parts_ordered)"
    by (simp add: header_units_def)
  have n: "strip (utils_block doc_ordered (marks parts_ordered)) \<noteq> []" by code_simp
  from unit_composition[OF resolve_doc_ordered m] n resolve_doc_ordered m
  show ?thesis by blast
qed

text \<open>C5 as stated fails: the types unit of the ordered sample document has no header
  and no separating blank line, and it is not the trimmed block (the first line of the
  block and the blank line between constant and type are gone); and with the utilities
  key before the layers key the layers unit ends with three line feeds.\<close>

theorem unit_not_header_and_trimmed_block:
  "resolve doc_ordered = Inr parts_ordered \<and>
   types_block doc_ordered (marks parts_ordered) =
     ''use a;\<newline>\<newline>'' @
     ''const DEFAULT_MAX_PREVIEW_WIDTH: u32 = 1;\<newline>\<newline>'' @
     ''#[derive(Debug)]\<newline>'' @
     ''pub struct PreviewStats;\<newline>\<newline>'' \<and>
   types_rs parts_ordered =
     ''const DEFAULT_MAX_PREVIEW_WIDTH: u32 = 1;\<newline>'' @
     ''#[derive(Debug)]\<newline>'' @
     ''pub struct PreviewStats;\<newline>'' \<and>
   resolve doc_utils_first = Inr parts_utils_first \<and>
   layers_block doc_utils_first (marks parts_utils_first) = [] \<and>
   layers_rs doc_utils_first parts_utils_first = layers_header @ ''\<newline>'' \<and>
   \<not> single_terminator (layers_rs doc_utils_first parts_utils_first)"
proof -
  have 1: "types_block doc_ordered (marks parts_ordered) =
     ''use a;\<newline>\<newline>'' @
     ''const DEFAULT_MAX_PREVIEW_WIDTH: u32 = 1;\<newline>\<newline>'' @
     ''#[derive(Debug)]\<newline>'' @
     ''pub struct PreviewStats;\<newline>\<newline>''"
    by code_simp
  have 2: "types_rs parts_ordered =
     ''const DEFAULT_MAX_PREVIEW_WIDTH: u32 = 1;\<newline>'' @
     ''#[derive(Debug)]\<newline>'' @
     ''pub struct PreviewStats;\<newline>''"
    by (simp add: types_rs_def parts_ordered_def)
  have 3: "layers_block doc_utils_first (marks parts_utils_first) = []"
    by (simp add: layers_block_def slice_def parts_utils_first_def marks_utils_first_def)
  have 4: "layers_rs doc_utils_first parts_utils_first = layers_header @ ''\<newline>''"
    by (simp add: layers_rs_def 3 strip_def)
  have 5: "\<not> single_terminator (layers_header @ ''\<newline>'')"
    by (simp add: single_terminator_def layers_header_def is_linebreak_def)
  from resolve_doc_ordered resolve_doc_utils_first 1 2 3 4 5 show ?thesis by simp
qed

end
